theory Spec2Isabelle
  imports Main "HOL-Library.Word"
begin

section \<open>Faults and exceptions\<close>

text \<open>
  The C++ sources have two kinds of abnormal behaviour. Exceptions are values of
  \<open>exn\<close>, returned on the left of a sum. Undefined behaviour (signed overflow, an
  unchecked read outside a \<open>std::vector\<close>) is a value of \<open>fault\<close>.
\<close>

datatype exn =
    Invalid_argument                \<comment> \<open>\<open>std::invalid_argument\<close>, thrown by \<open>stoul\<close>\<close>
  | Out_of_range                    \<comment> \<open>\<open>std::out_of_range\<close>, thrown by \<open>stoul\<close> and by \<open>vector::at\<close>\<close>
  | Outside_TwoD                    \<comment> \<open>\<open>std::out_of_range( "attempted to read outside of TwoD structure" )\<close>\<close>
  | Runtime_error string            \<comment> \<open>\<open>std::runtime_error\<close> with its message\<close>
  | Assertion_failed                \<comment> \<open>a failed \<open>assert\<close>\<close>

datatype fault =
    Signed_overflow                 \<comment> \<open>overflow of a signed multiplication\<close>
  | Unchecked_read                  \<comment> \<open>\<open>operator[]\<close> or \<open>back()\<close> outside the vector\<close>

section \<open>salsify-sender.cc: the feedback rule\<close>

text \<open>
  \<open>target_size\<close> (lines 82-93). \<open>max_delay / avg_delay\<close> is a 32-bit unsigned division,
  converted to 64 bits for the subtraction of \<open>last_sent - last_acked\<close>, which is
  unsigned and wraps; \<open>static_cast<int64_t>\<close> reads the 64 bits as two's complement
  (\<open>sint\<close>); \<open>max( 0l, ... )\<close> and the product with 1400 are signed 64-bit, so a product
  of 2^63 or more is an overflow; the result is returned as \<open>size_t\<close>. The three lines
  written to \<open>cerr\<close> are not modelled.
\<close>

definition target_size :: "32 word \<Rightarrow> 64 word \<Rightarrow> 64 word \<Rightarrow> fault + 64 word" where
  "target_size avg_delay0 last_acked0 last_sent =
     (let max_delay = (100 * 1000 :: 32 word);
          avg_delay1 = (if avg_delay0 = 0 then 1 else avg_delay0);
          budget = max (0 :: int)
                     (sint ((ucast (max_delay div avg_delay1) :: 64 word) - (last_sent - last_acked0)));
          product = 1400 * budget
      in if product < 2 ^ 63 then Inr (word_of_int product) else Inl Signed_overflow)"

section \<open>salsify-sender.cc: the command-line integer parser\<close>

text \<open>
  \<open>std::stoul( in )\<close> with the default base 10 is \<open>strtoul\<close>: it skips leading white
  space, reads an optional sign and then the longest run of decimal digits; with no
  digit it throws \<open>invalid_argument\<close>, with a value above \<open>ULONG_MAX\<close> (64 bits)
  \<open>out_of_range\<close>; a minus sign negates the value modulo 2^64. Whatever follows the
  digits is ignored.
\<close>

definition isspace :: "char \<Rightarrow> bool" where
  "isspace c = (c = CHR '' '' \<or> (9 \<le> (of_char c :: nat) \<and> (of_char c :: nat) \<le> 13))"

definition isdigit :: "char \<Rightarrow> bool" where
  "isdigit c = (48 \<le> (of_char c :: nat) \<and> (of_char c :: nat) \<le> 57)"

definition digit_value :: "char \<Rightarrow> int" where
  "digit_value c = (of_char c :: int) - 48"

definition decimal_value :: "string \<Rightarrow> int" where
  "decimal_value ds = foldl (\<lambda>acc c. 10 * acc + digit_value c) 0 ds"

definition stoul :: "string \<Rightarrow> exn + 64 word" where
  "stoul str =
     (let s1 = dropWhile isspace str;
          negative = (case s1 of c # _ \<Rightarrow> c = CHR ''-'' | [] \<Rightarrow> False);
          s2 = (case s1 of c # r \<Rightarrow> if c = CHR ''-'' \<or> c = CHR ''+'' then r else s1 | [] \<Rightarrow> []);
          ds = takeWhile isdigit s2
      in if ds = [] then Inl Invalid_argument
         else if decimal_value ds \<ge> 2 ^ 64 then Inl Out_of_range
         else Inr (if negative then - word_of_int (decimal_value ds)
                   else word_of_int (decimal_value ds)))"

text \<open>
  \<open>std::to_string\<close> of an unsigned value: its decimal digits, most significant first,
  no sign, no padding.
\<close>

function to_digits :: "int \<Rightarrow> string" where
  "to_digits n = (if n < 10 then [char_of (48 + n)]
                  else to_digits (n div 10) @ [char_of (48 + n mod 10)])"
  by pat_completeness auto
termination
  by (relation "measure nat") auto

declare to_digits.simps [simp del]

definition to_string :: "32 word \<Rightarrow> string" where
  "to_string w = to_digits (uint w)"

text \<open>
  \<open>paranoid_atoi\<close> (lines 100-108). The \<open>unsigned long\<close> of \<open>stoul\<close> initialises an
  \<open>unsigned int\<close>: the value is reduced modulo 2^32 (\<open>ucast\<close>).
\<close>

definition paranoid_atoi :: "string \<Rightarrow> exn + 32 word" where
  "paranoid_atoi inp =
     (case stoul inp of
        Inl e \<Rightarrow> Inl e
      | Inr v \<Rightarrow>
          (let ret = (ucast v :: 32 word);
               roundtrip = to_string ret
           in if roundtrip \<noteq> inp then Inl (Runtime_error (''invalid unsigned integer: '' @ inp))
              else Inr ret))"


section \<open>salsify-sender.cc: jobs, outputs and futures\<close>

type_synonym byte = "8 word"

text \<open>
  \<open>EncoderMode\<close>, \<open>Encoder\<close> and \<open>RasterHandle\<close> are declared in headers that are not
  part of the sources. The two enumerators are the ones \<open>do_encode_job\<close> handles;
  encoder states and rasters are type parameters.
\<close>

datatype EncoderMode = CONSTANT_QUANTIZER | TARGET_FRAME_SIZE

record ('enc, 'ras) EncodeJob =
  job_frame_no :: "32 word"
  job_raster :: 'ras
  job_encoder :: 'enc
  job_mode :: EncoderMode
  job_y_ac_qi :: "8 word"
  job_target_size :: "64 word"

text \<open>The constructor of \<open>EncodeJob\<close> (lines 37-40).\<close>

definition new_EncodeJob :: "32 word \<Rightarrow> 'ras \<Rightarrow> 'enc \<Rightarrow> ('enc, 'ras) EncodeJob" where
  "new_EncodeJob n raster0 encoder0 =
     \<lparr>job_frame_no = n, job_raster = raster0, job_encoder = encoder0,
      job_mode = CONSTANT_QUANTIZER, job_y_ac_qi = 0, job_target_size = 0\<rparr>"

record 'enc EncodeOutput =
  out_encoder :: 'enc
  out_frame :: "byte list"
  out_encode_time :: int

text \<open>
  The codec behind \<open>Encoder\<close>: its two encode operations change the encoder and return
  the encoded bytes. \<open>elapsed_ms\<close> is the wall-clock time \<open>do_encode_job\<close> measures.
\<close>

record ('enc, 'ras) codec =
  encode_with_quantizer :: "'enc \<Rightarrow> 'ras \<Rightarrow> 8 word \<Rightarrow> 'enc \<times> byte list"
  encode_with_target_size :: "'enc \<Rightarrow> 'ras \<Rightarrow> 64 word \<Rightarrow> 'enc \<times> byte list"
  elapsed_ms :: "('enc, 'ras) EncodeJob \<Rightarrow> int"

text \<open>\<open>do_encode_job\<close> (lines 55-80); the \<open>default\<close> case has no enumerator here.\<close>

definition do_encode_job :: "('enc, 'ras) codec \<Rightarrow> ('enc, 'ras) EncodeJob \<Rightarrow> 'enc EncodeOutput" where
  "do_encode_job cdc encode_job =
     (let res = (case job_mode encode_job of
                   CONSTANT_QUANTIZER \<Rightarrow>
                     encode_with_quantizer cdc (job_encoder encode_job) (job_raster encode_job)
                       (job_y_ac_qi encode_job)
                 | TARGET_FRAME_SIZE \<Rightarrow>
                     encode_with_target_size cdc (job_encoder encode_job) (job_raster encode_job)
                       (job_target_size encode_job))
      in \<lparr>out_encoder = fst res, out_frame = snd res, out_encode_time = elapsed_ms cdc encode_job\<rparr>)"

text \<open>
  A \<open>std::future\<close>. \<open>valid()\<close> tells whether the future refers to a shared state; it
  says nothing about the result being ready. A future returned by \<open>std::async\<close> is
  valid from the start; \<open>wait_until\<close> leaves it valid whether or not the result
  arrived; \<open>get()\<close> waits for the result, returns it and leaves the future without a
  shared state. \<open>Pending x\<close> is a future whose job is still running and will yield \<open>x\<close>.
\<close>

datatype 'a future = No_state | Pending 'a | Ready 'a

definition valid :: "'a future \<Rightarrow> bool" where
  "valid f = (f \<noteq> No_state)"


fun future_get :: "'a future \<Rightarrow> 'a option" where
  "future_get No_state = None"
| "future_get (Pending x) = Some x"
| "future_get (Ready x) = Some x"

text \<open>\<open>std::find_if\<close> as the position of the first match (the length when there is none).\<close>

fun find_if :: "('a \<Rightarrow> bool) \<Rightarrow> 'a list \<Rightarrow> nat" where
  "find_if p [] = 0"
| "find_if p (x # xs) = (if p x then 0 else Suc (find_if p xs))"

section \<open>salsify-sender.cc: the state of main\<close>

text \<open>
  Modelled from the spec: \<open>FragmentedFrame\<close> and \<open>AckPacket\<close> are declared in
  \<open>packet.hh\<close>, which is not part of the sources. The field widths are those of the
  spec's wire formats: connection id u16, frame number u32, frame interval u32,
  fragment number and fragment count u16, average delay u32.
\<close>

record FragmentedFrame =
  ff_connection_id :: "16 word"
  ff_frame_no :: "32 word"
  ff_time_per_frame :: "32 word"
  ff_frame :: "byte list"

record AckPacket =
  ack_connection_id :: "16 word"
  ack_frame_no :: "32 word"
  ack_fragment_no :: "16 word"
  ack_avg_delay :: "32 word"

text \<open>
  The local variables of \<open>main\<close> that the four poller actions capture by reference.
  \<open>socket\<close> records the frames handed to \<open>ff.send( socket )\<close>, oldest first.
\<close>

record ('enc, 'ras) sender =
  y_ac_qi :: "32 word"
  connection_id :: "16 word"
  avg_delay :: "32 word"
  cumulative_fpf :: "64 word list"
  last_acked :: "64 word"
  skipped_count :: "64 word"
  encoder :: 'enc
  frame_no :: "32 word"
  last_raster :: "'ras option"
  encode_jobs :: "('enc, 'ras) EncodeJob list"
  encode_outputs :: "'enc EncodeOutput future list"
  socket :: "FragmentedFrame list"

definition MAX_SKIPPED :: "64 word" where
  "MAX_SKIPPED = 5"

definition MS_PER_SECOND :: int where
  "MS_PER_SECOND = 1000"

definition fps :: int where
  "fps = 12"

text \<open>\<open>time_per_frame\<close> in milliseconds: the integer quotient 1000 / 12.\<close>

definition time_per_frame :: int where
  "time_per_frame = MS_PER_SECOND div fps"

text \<open>The state before the first event (lines 126-164).\<close>

definition initial :: "32 word \<Rightarrow> 16 word \<Rightarrow> 'enc \<Rightarrow> ('enc, 'ras) sender" where
  "initial qi cid enc =
     \<lparr>y_ac_qi = qi, connection_id = cid, avg_delay = 4294967295, cumulative_fpf = [],
      last_acked = 18446744073709551615, skipped_count = 0, encoder = enc, frame_no = 0,
      last_raster = None, encode_jobs = [], encode_outputs = [], socket = []\<rparr>"

text \<open>
  What an action returns to the poller. \<open>Undefined_behaviour\<close> is not a return value:
  it marks an action that read a vector outside its bounds (or overflowed), paired
  with the state at that point.
\<close>

datatype ResultType = Continue | Exit int | Undefined_behaviour fault

section \<open>salsify-sender.cc: the four actions\<close>

text \<open>Fetching a frame (lines 183-191); \<open>EXIT_FAILURE\<close> is 1.\<close>

definition raster_action :: "'ras option \<Rightarrow> ('enc, 'ras) sender \<Rightarrow> ResultType \<times> ('enc, 'ras) sender" where
  "raster_action next_frame s =
     (let s1 = s\<lparr>last_raster := next_frame\<rparr>
      in if last_raster s1 = None then (Exit 1, s1) else (Continue, s1))"

text \<open>
  The \<open>else\<close> branch of the tick action (lines 224-240), followed by the
  \<open>push_back\<close> of line 243. \<open>frame_size <= 0\<close> compares a \<open>size_t\<close>.
\<close>

definition feedback_branch ::
  "('enc, 'ras) EncodeJob \<Rightarrow> ('enc, 'ras) sender \<Rightarrow> ResultType \<times> ('enc, 'ras) sender" where
  "feedback_branch encode_job s =
     (if cumulative_fpf s = [] then (Undefined_behaviour Unchecked_read, s)
      else case target_size (avg_delay s) (last_acked s) (last (cumulative_fpf s)) of
        Inl f \<Rightarrow> (Undefined_behaviour f, s)
      | Inr frame_size \<Rightarrow>
          if frame_size \<le> 0 \<and> skipped_count s < MAX_SKIPPED then
            (Continue, s\<lparr>skipped_count := skipped_count s + 1\<rparr>)
          else if frame_size = 0 then
            (Continue, s\<lparr>encode_jobs := encode_jobs s @
               [encode_job\<lparr>job_mode := TARGET_FRAME_SIZE, job_target_size := 1400\<rparr>]\<rparr>)
          else
            (Continue, s\<lparr>encode_jobs := encode_jobs s @
               [encode_job\<lparr>job_mode := TARGET_FRAME_SIZE, job_target_size := frame_size\<rparr>]\<rparr>))"

text \<open>
  The tick action (lines 198-267). The condition of line 219 is written as in the
  source, \<open>true or ...\<close>. The assignment to the 8-bit \<open>encode_job.y_ac_qi\<close> narrows the
  \<open>unsigned int\<close> (\<open>ucast\<close>). The coordinator thread started at line 246 is
  \<open>coordinator\<close> below.
\<close>

definition tick_action :: "('enc, 'ras) sender \<Rightarrow> ResultType \<times> ('enc, 'ras) sender" where
  "tick_action s =
     (if length (encode_jobs s) > 0 then (Continue, s)
      else case last_raster s of
        None \<Rightarrow> (Continue, s)
      | Some raster0 \<Rightarrow>
          (let encode_job = new_EncodeJob (frame_no s) raster0 (encoder s)
           in if True \<or> avg_delay s = 4294967295 then
                (Continue, s\<lparr>encode_jobs := encode_jobs s @
                   [encode_job\<lparr>job_mode := CONSTANT_QUANTIZER, job_y_ac_qi := ucast (y_ac_qi s)\<rparr>]\<rparr>)
              else feedback_branch encode_job s))"

text \<open>
  The coordinator thread (lines 247-261): one \<open>std::async\<close> future per job. When it
  writes to \<open>encode_ended_pipe\<close>, job number \<open>i\<close> has finished iff \<open>in_time\<close> holds at
  \<open>i\<close> (it finished before the deadline, or before the later jobs were waited for).
\<close>

definition in_time :: "bool list \<Rightarrow> nat \<Rightarrow> bool" where
  "in_time finished i = (i < length finished \<and> finished ! i)"

definition coordinator ::
  "('enc, 'ras) codec \<Rightarrow> bool list \<Rightarrow> ('enc, 'ras) sender \<Rightarrow> ('enc, 'ras) sender" where
  "coordinator cdc finished s =
     s\<lparr>encode_outputs :=
         map (\<lambda>i. if in_time finished i then Ready (do_encode_job cdc (encode_jobs s ! i))
                   else Pending (do_encode_job cdc (encode_jobs s ! i)))
           [0 ..< length (encode_jobs s)]\<rparr>"

text \<open>
  Modelled from the spec: \<open>FragmentedFrame::fragments_in_this_frame\<close> is declared in
  \<open>packet.hh\<close>, which is not part of the sources. The number of fragments of an
  encoded frame is the 16-bit \<open>fragment_count\<close> of the spec's wire format; the function
  that computes it is a parameter of the generation-ended action.
\<close>

type_synonym fragment_counter = "byte list \<Rightarrow> 16 word"

text \<open>
  The generation-ended action (lines 272-307). \<open>get()\<close> waits for a pending future;
  it is called on a future that \<open>find_if\<close> found valid, so the \<open>None\<close> case cannot
  arise. The frame interval is 83 ms in microseconds. \<open>cumulative_fpf[ frame_no - 1 ]\<close>
  is an unchecked read.
\<close>

definition ended_action ::
  "fragment_counter \<Rightarrow> ('enc, 'ras) sender \<Rightarrow> ResultType \<times> ('enc, 'ras) sender" where
  "ended_action fragments_in_this_frame s =
     (if \<not> list_ex valid (encode_outputs s) then (Continue, s\<lparr>encode_jobs := []\<rparr>)
      else
        (let out_future = find_if valid (encode_outputs s)
         in case future_get (encode_outputs s ! out_future) of
           None \<Rightarrow> (Undefined_behaviour Unchecked_read, s)
         | Some output \<Rightarrow>
             (let ff = \<lparr>ff_connection_id = connection_id s, ff_frame_no = frame_no s,
                        ff_time_per_frame = word_of_int (time_per_frame * 1000),
                        ff_frame = out_frame output\<rparr>;
                  s1 = s\<lparr>encode_outputs := (encode_outputs s)[out_future := No_state],
                         socket := socket s @ [ff]\<rparr>
              in if frame_no s1 > 0 \<and> \<not> unat (frame_no s1 - 1) < length (cumulative_fpf s1) then
                   (Undefined_behaviour Unchecked_read, s1)
                 else
                   (Continue,
                    s1\<lparr>cumulative_fpf := cumulative_fpf s1 @
                          [if frame_no s1 > 0
                           then cumulative_fpf s1 ! unat (frame_no s1 - 1)
                                + ucast (fragments_in_this_frame (ff_frame ff))
                           else ucast (fragments_in_this_frame (ff_frame ff))],
                       encoder := out_encoder output,
                       skipped_count := 0,
                       frame_no := frame_no s1 + 1,
                       encode_jobs := []\<rparr>))))"

text \<open>
  The ack action (lines 312-329). \<open>cumulative_fpf[ ack.frame_no() - 1 ]\<close> is an
  unchecked read; \<open>avg_delay\<close> has been assigned before it.
\<close>

definition ack_action :: "AckPacket \<Rightarrow> ('enc, 'ras) sender \<Rightarrow> ResultType \<times> ('enc, 'ras) sender" where
  "ack_action ack s =
     (if ack_connection_id ack \<noteq> connection_id s then (Continue, s)
      else
        (let s1 = s\<lparr>avg_delay := ack_avg_delay ack\<rparr>
         in if ack_frame_no ack > 0 then
              (if unat (ack_frame_no ack - 1) < length (cumulative_fpf s1) then
                 (Continue, s1\<lparr>last_acked := cumulative_fpf s1 ! unat (ack_frame_no ack - 1)
                                               + ucast (ack_fragment_no ack)\<rparr>)
               else (Undefined_behaviour Unchecked_read, s1))
            else (Continue, s1\<lparr>last_acked := ucast (ack_fragment_no ack)\<rparr>)))"

section \<open>salsify-sender.cc: the event loop\<close>

text \<open>
  The poller serves one ready action at a time (lines 334-339). An event is what
  became readable: a frame on the input, a token of the tick thread, the token of a
  coordinator thread (with which of its jobs have finished), or an ack datagram.
  A coordinator exists only while \<open>encode_jobs\<close> is not empty, so its token cannot
  arrive otherwise.
\<close>

datatype 'ras event =
    Frame "'ras option"
  | Tick
  | Generation_ended "bool list"
  | Ack AckPacket

fun dispatch ::
  "('enc, 'ras) codec \<Rightarrow> (byte list \<Rightarrow> 16 word) \<Rightarrow> 'ras event \<Rightarrow> ('enc, 'ras) sender
   \<Rightarrow> ResultType \<times> ('enc, 'ras) sender" where
  "dispatch cdc nfrag (Frame r) s = raster_action r s"
| "dispatch cdc nfrag Tick s = tick_action s"
| "dispatch cdc nfrag (Generation_ended finished) s =
     (if encode_jobs s = [] then (Continue, s)
      else ended_action nfrag (coordinator cdc finished s))"
| "dispatch cdc nfrag (Ack a) s = ack_action a s"

fun main_loop ::
  "('enc, 'ras) codec \<Rightarrow> (byte list \<Rightarrow> 16 word) \<Rightarrow> 'ras event list \<Rightarrow> ('enc, 'ras) sender
   \<Rightarrow> ResultType \<times> ('enc, 'ras) sender" where
  "main_loop cdc nfrag [] s = (Continue, s)"
| "main_loop cdc nfrag (e # es) s =
     (case dispatch cdc nfrag e s of
        (Continue, s') \<Rightarrow> main_loop cdc nfrag es s'
      | (r, s') \<Rightarrow> (r, s'))"

text \<open>The states the sender can be in after some events.\<close>

definition reachable ::
  "('enc, 'ras) codec \<Rightarrow> (byte list \<Rightarrow> 16 word) \<Rightarrow> ('enc, 'ras) sender \<Rightarrow> ('enc, 'ras) sender \<Rightarrow> bool" where
  "reachable cdc nfrag s0 s = (\<exists>es. main_loop cdc nfrag es s0 = (Continue, s))"



text \<open>The futures the coordinator leaves in \<open>encode_outputs\<close> for the generation in flight.\<close>

definition launched ::
  "('enc, 'ras) codec \<Rightarrow> bool list \<Rightarrow> ('enc, 'ras) sender \<Rightarrow> 'enc EncodeOutput future list" where
  "launched cdc finished s = encode_outputs (coordinator cdc finished s)"

section \<open>Invariants of the event loop\<close>

text \<open>
  \<open>counters_inv\<close>: at most one job is in flight, the skip counter is 0, \<open>frame_no\<close> is
  the number of entries of \<open>cumulative_fpf\<close> (modulo 2^32), and one frame was sent per
  entry. \<open>fpf_inv\<close>: among the first 2^32 entries, entry \<open>k\<close> belongs to the frame
  numbered \<open>k\<close> and exceeds its predecessor by that frame's number of fragments.
\<close>

definition counters_inv :: "('enc, 'ras) sender \<Rightarrow> bool" where
  "counters_inv s =
     (length (encode_jobs s) \<le> 1 \<and> skipped_count s = 0 \<and>
      frame_no s = of_nat (length (cumulative_fpf s)) \<and>
      length (socket s) = length (cumulative_fpf s))"

definition fpf_inv :: "(byte list \<Rightarrow> 16 word) \<Rightarrow> ('enc, 'ras) sender \<Rightarrow> bool" where
  "fpf_inv nfrag s =
     (\<forall>k < length (cumulative_fpf s). k < 2 ^ 32 \<longrightarrow>
        ff_frame_no (socket s ! k) = of_nat k \<and>
        cumulative_fpf s ! k =
          (if k = 0 then 0 else cumulative_fpf s ! (k - 1)) + ucast (nfrag (ff_frame (socket s ! k))))"

section \<open>Sample inputs\<close>

text \<open>
  A small codec whose encoder state counts the frames encoded and whose
  constant-quantizer output is the quantizer byte; every frame has three fragments.
\<close>

definition sample_codec :: "(nat, nat) codec" where
  "sample_codec =
     \<lparr>encode_with_quantizer = (\<lambda>e r q. (Suc e, [q])),
      encode_with_target_size = (\<lambda>e r n. (Suc e, [])),
      elapsed_ms = (\<lambda>j. 40)\<rparr>"

definition three_fragments :: "byte list \<Rightarrow> 16 word" where
  "three_fragments frame = 3"

definition sample_ack :: AckPacket where
  "sample_ack =
     \<lparr>ack_connection_id = 7, ack_frame_no = 1, ack_fragment_no = 0, ack_avg_delay = 50000\<rparr>"

text \<open>The sender started with quantizer 300 and connection id 7, before any event.\<close>

definition fresh_state :: "(nat, nat) sender" where
  "fresh_state = initial 300 7 0"

text \<open>
  The state after a frame, a tick, the end of its generation and \<open>sample_ack\<close>:
  one frame of three fragments sent and acknowledged.
\<close>

definition acked_state :: "(nat, nat) sender" where
  "acked_state =
     \<lparr>y_ac_qi = 300, connection_id = 7, avg_delay = 50000,
      cumulative_fpf = [3], last_acked = 3, skipped_count = 0, encoder = 1,
      frame_no = 1, last_raster = Some 0, encode_jobs = [],
      encode_outputs = [No_state],
      socket = [\<lparr>ff_connection_id = 7, ff_frame_no = 0, ff_time_per_frame = 83000,
                 ff_frame = [44]\<rparr>]\<rparr>"


text \<open>The state after a frame and a tick: one job in flight.\<close>

definition generating_state :: "(nat, nat) sender" where
  "generating_state =
     (initial 300 7 0)\<lparr>last_raster := Some 0,
        encode_jobs := [\<lparr>job_frame_no = 0, job_raster = 0, job_encoder = 0,
                         job_mode = CONSTANT_QUANTIZER, job_y_ac_qi = 44, job_target_size = 0\<rparr>]\<rparr>"


text \<open>The state after two frames of three fragments each, the second one late.\<close>

definition two_frames_state :: "(nat, nat) sender" where
  "two_frames_state =
     \<lparr>y_ac_qi = 300, connection_id = 7, avg_delay = 4294967295,
      cumulative_fpf = [3, 6], last_acked = 18446744073709551615,
      skipped_count = 0, encoder = 2, frame_no = 2, last_raster = Some 0,
      encode_jobs = [], encode_outputs = [No_state],
      socket =
        [\<lparr>ff_connection_id = 7, ff_frame_no = 0, ff_time_per_frame = 83000, ff_frame = [44]\<rparr>,
         \<lparr>ff_connection_id = 7, ff_frame_no = 1, ff_time_per_frame = 83000, ff_frame = [44]\<rparr>]\<rparr>"

text \<open>
  A long run: a codec without state whose frames are empty, one fragment per frame,
  one raster, and then tick and generation end in turn. \<open>long_run_state n\<close> is the
  state after \<open>n\<close> such rounds, as long as \<open>frame_no\<close> has not wrapped;
  \<open>wrapped_state\<close> is the state one round after round number 2^32.
\<close>

definition unit_codec :: "(unit, unit) codec" where
  "unit_codec =
     \<lparr>encode_with_quantizer = (\<lambda>e r q. ((), [])),
      encode_with_target_size = (\<lambda>e r n. ((), [])),
      elapsed_ms = (\<lambda>j. 0)\<rparr>"

definition one_fragment :: "byte list \<Rightarrow> 16 word" where
  "one_fragment frame = 1"

definition empty_frame :: "nat \<Rightarrow> FragmentedFrame" where
  "empty_frame k = \<lparr>ff_connection_id = 0, ff_frame_no = of_nat k, ff_time_per_frame = 83000,
                     ff_frame = []\<rparr>"

definition long_run_state :: "nat \<Rightarrow> (unit, unit) sender" where
  "long_run_state n =
     \<lparr>y_ac_qi = 0, connection_id = 0, avg_delay = 4294967295,
      cumulative_fpf = map of_nat [1 ..< Suc n],
      last_acked = 18446744073709551615, skipped_count = 0, encoder = (),
      frame_no = of_nat n, last_raster = Some (), encode_jobs = [],
      encode_outputs = (if n = 0 then [] else [No_state]),
      socket = map empty_frame [0 ..< n]\<rparr>"

definition frames_until_wrap :: nat where
  "frames_until_wrap = 2 ^ 32"

definition wrapped_state :: "(unit, unit) sender" where
  "wrapped_state =
     (long_run_state frames_until_wrap)
       \<lparr>cumulative_fpf := cumulative_fpf (long_run_state frames_until_wrap) @ [1],
        socket := socket (long_run_state frames_until_wrap) @ [empty_frame 0],
        frame_no := 1\<rparr>"

section \<open>2d.hh: the two-dimensional container\<close>

text \<open>
  \<open>TwoD\<close> (lines 41-96): the dimensions are \<open>unsigned int\<close> (32 bits), the cells a
  \<open>std::vector\<close> in row-major order. A reference \<open>T &\<close> into the vector is modelled by
  the position it refers to; \<open>cell_at\<close> reads it. The members \<open>width_\<close>,
  \<open>height_\<close> and \<open>storage_\<close> are the fields \<open>twod_width\<close>, \<open>twod_height\<close> and
  \<open>twod_storage\<close> (a name cannot end in an underscore here).
\<close>

record 'a TwoD =
  twod_width :: "32 word"
  twod_height :: "32 word"
  twod_storage :: "'a list"

text \<open>\<open>std::vector::at\<close>: a reference to the element, or \<open>out_of_range\<close>.\<close>

definition vector_at :: "'a list \<Rightarrow> nat \<Rightarrow> exn + nat" where
  "vector_at xs i = (if i < length xs then Inr i else Inl Out_of_range)"

text \<open>
  \<open>TwoD::at\<close> (lines 75-81). \<open>row * twod_width + column\<close> is computed in \<open>unsigned int\<close>
  and then converted to the vector's \<open>size_t\<close> index.
\<close>

definition TwoD_at :: "'a TwoD \<Rightarrow> 32 word \<Rightarrow> 32 word \<Rightarrow> exn + nat" where
  "TwoD_at t column row =
     (if column > twod_width t \<or> row > twod_height t then Inl Outside_TwoD
      else vector_at (twod_storage t) (unat (row * twod_width t + column)))"

definition cell_at :: "'a TwoD \<Rightarrow> nat \<Rightarrow> 'a" where
  "cell_at t i = twod_storage t ! i"

text \<open>
  The constructor (lines 55-73). \<open>Context\<close> is what each cell is constructed from:
  its column and row and the optional pointers to the cells above and to the left,
  as positions in the storage built so far. The element type's own constructor is the
  parameter \<open>make_cell\<close>, which gets the context and that storage (what the pointers
  point into). \<open>reserve\<close> changes no value. A failed \<open>assert\<close> and an exception of
  \<open>at\<close> end the construction.
\<close>

record Context =
  ctx_column :: "32 word"
  ctx_row :: "32 word"
  ctx_above :: "nat option"
  ctx_left :: "nat option"

fun for_loop :: "('i \<Rightarrow> 's \<Rightarrow> exn + 's) \<Rightarrow> 'i list \<Rightarrow> 's \<Rightarrow> exn + 's" where
  "for_loop body [] s = Inr s"
| "for_loop body (i # is) s =
     (case body i s of Inl e \<Rightarrow> Inl e | Inr s' \<Rightarrow> for_loop body is s')"

definition emplace_cell ::
  "(Context \<Rightarrow> 'a list \<Rightarrow> 'a) \<Rightarrow> 32 word \<Rightarrow> 32 word \<Rightarrow> 'a TwoD \<Rightarrow> exn + 'a TwoD" where
  "emplace_cell make_cell row column t =
     (case (if row > 0 then map_sum id Some (TwoD_at t column (row - 1)) else Inr None) of
        Inl e \<Rightarrow> Inl e
      | Inr above_cell \<Rightarrow>
          (case (if column > 0 then map_sum id Some (TwoD_at t (column - 1) row) else Inr None) of
             Inl e \<Rightarrow> Inl e
           | Inr left_cell \<Rightarrow>
               Inr (t\<lparr>twod_storage := twod_storage t @
                      [make_cell \<lparr>ctx_column = column, ctx_row = row,
                                   ctx_above = above_cell, ctx_left = left_cell\<rparr> (twod_storage t)]\<rparr>)))"

definition new_TwoD ::
  "(Context \<Rightarrow> 'a list \<Rightarrow> 'a) \<Rightarrow> 32 word \<Rightarrow> 32 word \<Rightarrow> exn + 'a TwoD" where
  "new_TwoD make_cell width height =
     (if \<not> width > 0 then Inl Assertion_failed
      else if \<not> height > 0 then Inl Assertion_failed
      else for_loop
             (\<lambda>row. for_loop (emplace_cell make_cell row) (map of_nat [0 ..< unat width]))
             (map of_nat [0 ..< unat height])
             \<lparr>twod_width = width, twod_height = height, twod_storage = []\<rparr>)"

text \<open>
  \<open>TwoDSubRange\<close> (lines 98-144): a window into a master \<open>TwoD\<close>. The reference to the
  master is modelled by the master's value, which \<open>at\<close> only reads. The two
  constructors differ in how the window's origin is given. The members \<open>master_\<close>,
  \<open>column_\<close>, \<open>row_\<close>, \<open>width_\<close> and \<open>height_\<close> are the fields \<open>sr_master\<close>,
  \<open>sr_column\<close>, \<open>sr_row\<close>, \<open>sr_width\<close> and \<open>sr_height\<close>.
\<close>

record 'a TwoDSubRange =
  sr_master :: "'a TwoD"
  sr_column :: "32 word"
  sr_row :: "32 word"
  sr_width :: "32 word"
  sr_height :: "32 word"

definition new_TwoDSubRange ::
  "'a TwoD \<Rightarrow> 32 word \<Rightarrow> 32 word \<Rightarrow> 32 word \<Rightarrow> 32 word \<Rightarrow> exn + 'a TwoDSubRange" where
  "new_TwoDSubRange master column row width height =
     (if \<not> column + width \<le> twod_width master then Inl Assertion_failed
      else if \<not> row + height \<le> twod_height master then Inl Assertion_failed
      else Inr \<lparr>sr_master = master, sr_column = column, sr_row = row,
                 sr_width = width, sr_height = height\<rparr>)"

definition sub_TwoDSubRange ::
  "'a TwoDSubRange \<Rightarrow> 32 word \<Rightarrow> 32 word \<Rightarrow> 32 word \<Rightarrow> 32 word \<Rightarrow> exn + 'a TwoDSubRange" where
  "sub_TwoDSubRange parent column row width height =
     (if \<not> (column + sr_column parent) + width \<le> twod_width (sr_master parent) then Inl Assertion_failed
      else if \<not> (row + sr_row parent) + height \<le> twod_height (sr_master parent) then Inl Assertion_failed
      else Inr \<lparr>sr_master = sr_master parent, sr_column = column + sr_column parent,
                 sr_row = row + sr_row parent, sr_width = width, sr_height = height\<rparr>)"

text \<open>\<open>TwoDSubRange::at\<close> (lines 134-140).\<close>

definition TwoDSubRange_at :: "'a TwoDSubRange \<Rightarrow> 32 word \<Rightarrow> 32 word \<Rightarrow> exn + nat" where
  "TwoDSubRange_at sr column row =
     (if column > sr_width sr \<or> row > sr_height sr then Inl Outside_TwoD
      else TwoD_at (sr_master sr) (sr_column sr + column) (sr_row sr + row))"

text \<open>A grid of three columns and three rows whose cells hold their own position.\<close>

definition numbered_cell :: "Context \<Rightarrow> nat list \<Rightarrow> nat" where
  "numbered_cell c cells = length cells"

definition sample_grid :: "nat TwoD" where
  "sample_grid =
     \<lparr>twod_width = 3, twod_height = 3, twod_storage = [0, 1, 2, 3, 4, 5, 6, 7, 8]\<rparr>"

text \<open>The window of two columns and one row at the origin of \<open>sample_grid\<close>.\<close>

definition sample_window :: "nat TwoDSubRange" where
  "sample_window = \<lparr>sr_master = sample_grid, sr_column = 0, sr_row = 0, sr_width = 2, sr_height = 1\<rparr>"


section \<open>Word arithmetic used below\<close>

lemma sint_diff:
  fixes x y :: "'a::len word"
  assumes "- (2 ^ (LENGTH('a) - Suc 0)) \<le> uint x - uint y"
      and "uint x - uint y < 2 ^ (LENGTH('a) - Suc 0)"
  shows "sint (x - y) = uint x - uint y"
proof -
  have "sint (x - y) = signed_take_bit (LENGTH('a) - Suc 0) (uint (x - y))"
    by (rule sint_uint)
  also have "uint (x - y) = take_bit LENGTH('a) (uint x - uint y)"
    by (simp add: uint_word_ariths take_bit_eq_mod)
  also have "signed_take_bit (LENGTH('a) - Suc 0) (take_bit LENGTH('a) (uint x - uint y))
             = signed_take_bit (LENGTH('a) - Suc 0) (uint x - uint y)"
    by (simp add: signed_take_bit_take_bit)
  also have "\<dots> = uint x - uint y"
    using assms by (rule signed_take_bit_int_eq_self)
  finally show ?thesis .
qed

lemma sint_diff_64:
  fixes x y :: "64 word"
  assumes "- 9223372036854775808 \<le> uint x - uint y"
      and "uint x - uint y < 9223372036854775808"
  shows "sint (x - y) = uint x - uint y"
  using assms sint_diff [of x y] by simp

section \<open>The feedback rule\<close>

lemma quotient_value:
  fixes a :: "32 word"
  shows "uint (ucast ((100000 :: 32 word) div (if a = 0 then 1 else a)) :: 64 word)
         = 100000 div max (uint a) 1"
proof -
  have up: "uint (ucast w :: 64 word) = uint w" for w :: "32 word"
    by (rule uint_up_ucast) (simp add: is_up)
  have nz: "uint (if a = 0 then 1 else a) = max (uint a) 1"
  proof (cases "a = 0")
    case True
    then show ?thesis by simp
  next
    case False
    then have "uint a \<noteq> 0" by (simp add: uint_0_iff)
    moreover have "0 \<le> uint a" by simp
    ultimately have "1 \<le> uint a" by linarith
    with False show ?thesis by (simp add: max_def)
  qed
  show ?thesis
    by (simp only: up uint_div_distrib nz) simp
qed

lemma quotient_range:
  "0 \<le> (100000 :: int) div max (uint (a :: 32 word)) 1"
  "(100000 :: int) div max (uint a) 1 \<le> 100000"
proof -
  have pos: "0 < max (uint a) 1" by simp
  show "0 \<le> (100000 :: int) div max (uint a) 1"
    using pos by (simp add: pos_imp_zdiv_nonneg_iff del: max_less_iff_conj)
  have "(100000 :: int) div max (uint a) 1 \<le> 100000 div 1"
    by (rule zdiv_mono2) simp_all
  then show "(100000 :: int) div max (uint a) 1 \<le> 100000" by simp
qed

text \<open>
  Claim C4, as stated, fails: with \<open>avg_delay = 100000\<close>, \<open>last_acked = 0\<close> and
  \<open>last_sent = 2^64 - 1\<close> the quotient is 1, the unsigned difference
  \<open>1 - (2^64 - 1)\<close> wraps to 2, and \<open>target_size\<close> returns \<open>1400 * 2 = 2800\<close>, where the
  claimed formula \<open>1400 * max(0, 1 - (2^64 - 1))\<close> is 0.
\<close>

theorem target_size_counterexample:
  "target_size 100000 0 18446744073709551615 = Inr 2800 \<and>
   (0 :: 64 word) \<le> 18446744073709551615 \<and>
   1400 * max 0 (100000 div max (uint (100000 :: 32 word)) 1
                 - (uint (18446744073709551615 :: 64 word) - uint (0 :: 64 word))) = (0 :: int)"
  by (simp add: target_size_def)

text \<open>
  Claim C4, amended: for every \<open>avg_delay\<close> and every pair \<open>last_acked \<le> last_sent\<close>
  whose difference is at most \<open>2^63 + 100000 / max(avg_delay, 1)\<close>, \<open>target_size\<close>
  returns (without overflow) exactly
  \<open>1400 * max(0, 100000 / max(avg_delay, 1) - (last_sent - last_acked))\<close>, computed
  in the integers.
\<close>

theorem target_size_formula:
  assumes "last_acked0 \<le> last_sent"
      and "uint last_sent - uint last_acked0 \<le> 2 ^ 63 + 100000 div max (uint avg_delay0) 1"
  shows "\<exists>r. target_size avg_delay0 last_acked0 last_sent = Inr r \<and>
             uint r = 1400 * max 0 (100000 div max (uint avg_delay0) 1
                                      - (uint last_sent - uint last_acked0))"
proof -
  define q :: int where "q = 100000 div max (uint avg_delay0) 1"
  define f :: int where "f = uint last_sent - uint last_acked0"
  define b :: int where "b = 1400 * max 0 (q - f)"
  have q_range: "0 \<le> q" "q \<le> 100000"
    unfolding q_def by (rule quotient_range)+
  have f_eq: "uint (last_sent - last_acked0) = f"
    unfolding f_def using assms(1) by (simp add: uint_sub_lem [symmetric] word_le_def)
  have f_range: "0 \<le> f" "f < 2 ^ 64"
    using f_eq [symmetric] uint_lt2p [of "last_sent - last_acked0"] by simp_all
  have "sint ((ucast ((100000 :: 32 word) div (if avg_delay0 = 0 then 1 else avg_delay0)) :: 64 word)
              - (last_sent - last_acked0)) = q - f"
    using q_range f_range assms(2)
    by (subst sint_diff_64) (simp_all add: quotient_value f_eq q_def [symmetric] f_def [symmetric])
  moreover have "(100 * 1000 :: 32 word) = 100000" by simp
  ultimately have ts: "target_size avg_delay0 last_acked0 last_sent =
      (if b < 2 ^ 63 then Inr (word_of_int b) else Inl Signed_overflow)"
    by (simp only: target_size_def Let_def b_def)
  have bound: "0 \<le> b" "b \<le> 140000000"
    unfolding b_def using q_range f_range by (simp_all add: max_def)
  then have "uint (word_of_int b :: 64 word) = b"
    by (simp add: uint_word_of_int)
  with ts bound show ?thesis
    unfolding b_def q_def f_def by simp
qed

theorem target_size_formula_witness:
  "(5 :: 64 word) \<le> 7 \<and>
   uint (7 :: 64 word) - uint (5 :: 64 word) \<le> 2 ^ 63 + 100000 div max (uint (20000 :: 32 word)) 1 \<and>
   (\<exists>r. target_size 20000 5 7 = Inr r \<and> uint r = 4200)"
  using target_size_formula [of 5 7 20000] by simp



section \<open>The actions, one at a time\<close>

lemmas action_defs = raster_action_def tick_action_def coordinator_def ended_action_def
  ack_action_def new_EncodeJob_def do_encode_job_def in_time_def valid_def
  time_per_frame_def MS_PER_SECOND_def fps_def

lemma acked_state_run:
  "main_loop sample_codec three_fragments
     [Frame (Some 0), Tick, Generation_ended [True], Ack sample_ack] (initial 300 7 0)
   = (Continue, acked_state)"
  by (simp add: sample_codec_def three_fragments_def sample_ack_def initial_def acked_state_def
      action_defs)

lemma acked_state_reachable:
  "reachable sample_codec three_fragments (initial 300 7 0) acked_state"
  unfolding reachable_def using acked_state_run by blast

lemma generating_state_run:
  "main_loop sample_codec three_fragments [Frame (Some 0), Tick] (initial 300 7 0)
   = (Continue, generating_state)"
  by (simp add: initial_def generating_state_def action_defs)

lemma generating_state_reachable:
  "reachable sample_codec three_fragments (initial 300 7 0) generating_state"
  unfolding reachable_def using generating_state_run by blast

text \<open>
  Claim C1, as stated, fails. In \<open>acked_state\<close> (reachable: one frame sent, one ack
  received, so \<open>avg_delay = 50000\<close> is not the sentinel) the target size is
  \<open>1400 * (100000 / 50000 - 0) = 2800 > 0\<close>, yet the tick spawns a
  \<open>CONSTANT_QUANTIZER\<close> job, not a \<open>TARGET_FRAME_SIZE\<close> job of 2800 bytes: the
  condition of line 219 starts with \<open>true or\<close>. The job's quantizer is 44, the low
  eight bits of the configured 300.
\<close>

theorem tick_ignores_feedback_counterexample:
  "reachable sample_codec three_fragments (initial 300 7 0) acked_state \<and>
   avg_delay acked_state \<noteq> 4294967295 \<and>
   target_size (avg_delay acked_state) (last_acked acked_state) (last (cumulative_fpf acked_state))
     = Inr 2800 \<and>
   y_ac_qi acked_state = 300 \<and>
   tick_action acked_state =
     (Continue, acked_state\<lparr>encode_jobs :=
        [\<lparr>job_frame_no = 1, job_raster = 0, job_encoder = 1, job_mode = CONSTANT_QUANTIZER,
          job_y_ac_qi = 44, job_target_size = 0\<rparr>]\<rparr>)"
proof -
  have "target_size (avg_delay acked_state) (last_acked acked_state)
          (last (cumulative_fpf acked_state)) = Inr 2800"
    by (simp add: acked_state_def target_size_def)
  moreover have "tick_action acked_state =
     (Continue, acked_state\<lparr>encode_jobs :=
        [\<lparr>job_frame_no = 1, job_raster = 0, job_encoder = 1, job_mode = CONSTANT_QUANTIZER,
          job_y_ac_qi = 44, job_target_size = 0\<rparr>]\<rparr>)"
    by (simp add: acked_state_def tick_action_def new_EncodeJob_def)
  moreover have "avg_delay acked_state \<noteq> 4294967295" "y_ac_qi acked_state = 300"
    by (simp_all add: acked_state_def)
  ultimately show ?thesis
    using acked_state_reachable by blast
qed

text \<open>
  Claim C1, amended: on every valid tick (no job in flight, a raster present),
  whether or not an ack has been received and whatever the target size would be, the
  action spawns exactly one \<open>EncodeJob\<close> in \<open>CONSTANT_QUANTIZER\<close> mode, on the current
  frame number, raster and committed encoder, whose quantizer is the configured
  \<open>y_ac_qi\<close> reduced modulo 256 (the job's field has eight bits); \<open>do_encode_job\<close> runs
  it through \<open>encode_with_quantizer\<close> with that value.
\<close>

theorem tick_action_constant_quantizer:
  assumes "encode_jobs s = []" and "last_raster s = Some r"
  shows "\<exists>job. tick_action s = (Continue, s\<lparr>encode_jobs := [job]\<rparr>) \<and>
           job_mode job = CONSTANT_QUANTIZER \<and>
           job_y_ac_qi job = ucast (y_ac_qi s) \<and>
           unat (job_y_ac_qi job) = unat (y_ac_qi s) mod 256 \<and>
           job_frame_no job = frame_no s \<and> job_raster job = r \<and> job_encoder job = encoder s \<and>
           out_encoder (do_encode_job cdc job)
             = fst (encode_with_quantizer cdc (encoder s) r (ucast (y_ac_qi s))) \<and>
           out_frame (do_encode_job cdc job)
             = snd (encode_with_quantizer cdc (encoder s) r (ucast (y_ac_qi s)))"
proof -
  let ?job = "\<lparr>job_frame_no = frame_no s, job_raster = r, job_encoder = encoder s,
               job_mode = CONSTANT_QUANTIZER, job_y_ac_qi = ucast (y_ac_qi s),
               job_target_size = 0\<rparr>"
  have "tick_action s = (Continue, s\<lparr>encode_jobs := [?job]\<rparr>)"
    using assms by (simp add: tick_action_def new_EncodeJob_def)
  moreover have "unat (job_y_ac_qi ?job) = unat (y_ac_qi s) mod 256"
    by (simp add: unsigned_ucast_eq take_bit_eq_mod)
  moreover have "out_encoder (do_encode_job cdc ?job)
             = fst (encode_with_quantizer cdc (encoder s) r (ucast (y_ac_qi s)))"
    and "out_frame (do_encode_job cdc ?job)
             = snd (encode_with_quantizer cdc (encoder s) r (ucast (y_ac_qi s)))"
    by (simp_all add: do_encode_job_def Let_def)
  ultimately show ?thesis
    by (intro exI [of _ ?job]) simp
qed

theorem tick_action_constant_quantizer_witness:
  "encode_jobs acked_state = [] \<and> last_raster acked_state = Some 0 \<and>
   (\<exists>job. tick_action acked_state = (Continue, acked_state\<lparr>encode_jobs := [job]\<rparr>) \<and>
      job_mode job = CONSTANT_QUANTIZER \<and> job_y_ac_qi job = 44 \<and>
      out_frame (do_encode_job sample_codec job) = [44])"
proof -
  have a: "encode_jobs acked_state = []" and b: "last_raster acked_state = Some 0"
    by (simp_all add: acked_state_def)
  from tick_action_constant_quantizer [OF a b, of sample_codec]
  obtain job where "tick_action acked_state = (Continue, acked_state\<lparr>encode_jobs := [job]\<rparr>)"
    and "job_mode job = CONSTANT_QUANTIZER"
    and "job_y_ac_qi job = ucast (y_ac_qi acked_state)"
    and "out_frame (do_encode_job sample_codec job)
           = snd (encode_with_quantizer sample_codec (encoder acked_state) 0
                   (ucast (y_ac_qi acked_state)))"
    by blast
  moreover have "(ucast (y_ac_qi acked_state) :: 8 word) = 44"
    by (simp add: acked_state_def)
  ultimately show ?thesis
    using a b by (auto simp add: sample_codec_def)
qed

text \<open>
  Claim C3 fails on the code. Before any frame is sent \<open>cumulative_fpf\<close> is empty. An
  ack datagram of this session for frame 1 is not dropped: the action has no check of
  the ack's frame number against the frames sent, it first overwrites \<open>avg_delay\<close>
  (50000 instead of the sentinel) and then reads \<open>cumulative_fpf[ 0 ]\<close>, an element
  the vector does not have.
\<close>

theorem ack_for_unsent_frame_reads_out_of_bounds:
  "reachable sample_codec three_fragments (initial 300 7 0) fresh_state \<and>
   ack_connection_id sample_ack = connection_id fresh_state \<and>
   ack_frame_no sample_ack = 1 \<and>
   cumulative_fpf fresh_state = [] \<and>
   avg_delay fresh_state = 4294967295 \<and>
   fst (main_loop sample_codec three_fragments [Ack sample_ack] fresh_state)
     = Undefined_behaviour Unchecked_read \<and>
   avg_delay (snd (main_loop sample_codec three_fragments [Ack sample_ack] fresh_state)) = 50000"
proof -
  have "main_loop sample_codec three_fragments [] (initial 300 7 0) = (Continue, fresh_state)"
    by (simp add: fresh_state_def)
  then have "reachable sample_codec three_fragments (initial 300 7 0) fresh_state"
    unfolding reachable_def by (rule exI)
  moreover have "ack_action sample_ack fresh_state
     = (Undefined_behaviour Unchecked_read, fresh_state\<lparr>avg_delay := 50000\<rparr>)"
    by (simp add: sample_ack_def fresh_state_def initial_def ack_action_def)
  ultimately show ?thesis
    by (simp add: sample_ack_def fresh_state_def initial_def)
qed

lemma tick_action_spawn:
  assumes "encode_jobs t = []" and "last_raster t = Some r"
  shows "tick_action t =
           (Continue, t\<lparr>encode_jobs :=
              [\<lparr>job_frame_no = frame_no t, job_raster = r, job_encoder = encoder t,
                job_mode = CONSTANT_QUANTIZER, job_y_ac_qi = ucast (y_ac_qi t),
                job_target_size = 0\<rparr>]\<rparr>)"
  using assms by (simp add: tick_action_def new_EncodeJob_def)

section \<open>The generation-ended action after the coordinator\<close>

lemma launched_nonempty:
  assumes "encode_jobs s \<noteq> []"
  shows "\<exists>f fs. launched cdc finished s = f # fs \<and>
                (f = Ready (do_encode_job cdc (hd (encode_jobs s))) \<or>
                 f = Pending (do_encode_job cdc (hd (encode_jobs s))))"
proof -
  from assms obtain j js where js: "encode_jobs s = j # js" by (cases "encode_jobs s") auto
  have "[0 ..< length (j # js)] = 0 # [Suc 0 ..< length (j # js)]"
    by (subst upt_rec) simp
  then show ?thesis
    by (simp only: launched_def coordinator_def js) (simp del: upt_Suc)
qed

lemma launched_single:
  assumes "encode_jobs s = [j]"
  shows "launched cdc finished s =
           [if in_time finished 0 then Ready (do_encode_job cdc j) else Pending (do_encode_job cdc j)]"
  using assms by (simp add: launched_def coordinator_def)

lemma word_pred_index:
  fixes n :: "32 word"
  assumes "n = of_nat m" and "0 < n"
  shows "unat (n - 1) < m"
proof -
  have "n \<noteq> 0" using assms(2) by (simp add: word_gt_0)
  then have "unat (n - 1) = unat n - 1" by (rule unat_minus_one)
  moreover have "0 < unat n" using \<open>n \<noteq> 0\<close> by (simp add: unat_gt_0)
  moreover have "unat n \<le> m" using assms(1) by (simp add: unat_of_nat)
  ultimately show ?thesis by linarith
qed

lemma ended_after_coordinator:
  assumes jobs: "encode_jobs s \<noteq> []"
      and cnt: "frame_no s = of_nat (length (cumulative_fpf s))"
  shows "ended_action nfrag (coordinator cdc finished s) =
           (Continue,
            s\<lparr>encode_outputs := (launched cdc finished s)[0 := No_state],
              socket := socket s @
                [\<lparr>ff_connection_id = connection_id s, ff_frame_no = frame_no s,
                  ff_time_per_frame = 83000,
                  ff_frame = out_frame (do_encode_job cdc (hd (encode_jobs s)))\<rparr>],
              cumulative_fpf := cumulative_fpf s @
                [if 0 < frame_no s
                 then cumulative_fpf s ! unat (frame_no s - 1)
                      + ucast (nfrag (out_frame (do_encode_job cdc (hd (encode_jobs s)))))
                 else ucast (nfrag (out_frame (do_encode_job cdc (hd (encode_jobs s)))))],
              encoder := out_encoder (do_encode_job cdc (hd (encode_jobs s))),
              skipped_count := 0,
              frame_no := frame_no s + 1,
              encode_jobs := []\<rparr>)"
proof -
  from launched_nonempty [OF jobs, of cdc finished]
  obtain f fs where l: "launched cdc finished s = f # fs"
    and f: "f = Ready (do_encode_job cdc (hd (encode_jobs s))) \<or>
            f = Pending (do_encode_job cdc (hd (encode_jobs s)))"
    by blast
  have outs: "encode_outputs (coordinator cdc finished s) = f # fs"
    using l by (simp add: launched_def)
  have rest: "cumulative_fpf (coordinator cdc finished s) = cumulative_fpf s"
    "frame_no (coordinator cdc finished s) = frame_no s"
    "socket (coordinator cdc finished s) = socket s"
    "connection_id (coordinator cdc finished s) = connection_id s"
    by (simp_all add: coordinator_def)
  have v: "valid f" and g: "future_get f = Some (do_encode_job cdc (hd (encode_jobs s)))"
    using f by (auto simp add: valid_def)
  have idx: "0 < frame_no s \<Longrightarrow> unat (frame_no s - 1) < length (cumulative_fpf s)"
    using cnt by (rule word_pred_index)
  have tpf: "(word_of_int time_per_frame * 1000 :: 32 word) = 83000"
    by (simp add: time_per_frame_def MS_PER_SECOND_def fps_def)
  show ?thesis
    unfolding ended_action_def Let_def
    using idx by (simp add: outs rest v g tpf l) (simp add: coordinator_def launched_def)
qed

section \<open>Invariants\<close>

lemma counters_inv_initial: "counters_inv (initial qi cid enc)"
  by (simp add: counters_inv_def initial_def)

lemma fpf_inv_initial: "fpf_inv nfrag (initial qi cid enc)"
  by (simp add: fpf_inv_def initial_def)

lemma tick_action_cases:
  "tick_action s = (Continue, s) \<or>
   (encode_jobs s = [] \<and> (\<exists>job. tick_action s = (Continue, s\<lparr>encode_jobs := [job]\<rparr>)))"
  by (cases "last_raster s") (auto simp add: tick_action_def Let_def)

lemma ack_action_fields:
  assumes "ack_action a s = (r, s')"
  shows "encode_jobs s' = encode_jobs s" "skipped_count s' = skipped_count s"
    "frame_no s' = frame_no s" "cumulative_fpf s' = cumulative_fpf s" "socket s' = socket s"
  using assms by (auto simp add: ack_action_def Let_def split: if_splits)

lemma raster_action_fields:
  assumes "raster_action x s = (r, s')"
  shows "encode_jobs s' = encode_jobs s" "skipped_count s' = skipped_count s"
    "frame_no s' = frame_no s" "cumulative_fpf s' = cumulative_fpf s" "socket s' = socket s"
  using assms by (auto simp add: raster_action_def Let_def split: if_splits)

lemma counters_inv_dispatch:
  assumes "counters_inv s" and "dispatch cdc nfrag e s = (Continue, s')"
  shows "counters_inv s'"
proof (cases e)
  case (Frame x)
  with assms show ?thesis
    by (simp add: counters_inv_def raster_action_fields)
next
  case Tick
  with assms tick_action_cases [of s] show ?thesis
    by (auto simp add: counters_inv_def)
next
  case (Generation_ended finished)
  show ?thesis
  proof (cases "encode_jobs s = []")
    case True
    with assms Generation_ended show ?thesis by simp
  next
    case False
    have cnt: "frame_no s = of_nat (length (cumulative_fpf s))"
      using assms(1) by (simp add: counters_inv_def)
    show ?thesis
      using assms Generation_ended False
      by (auto simp add: ended_after_coordinator [OF False cnt] counters_inv_def)
  qed
next
  case (Ack a)
  with assms show ?thesis
    by (simp add: counters_inv_def ack_action_fields)
qed

lemma fpf_inv_dispatch:
  assumes c: "counters_inv s" and f: "fpf_inv nfrag s" and d: "dispatch cdc nfrag e s = (Continue, s')"
  shows "fpf_inv nfrag s'"
proof (cases e)
  case (Frame x)
  with f d show ?thesis
    by (simp add: fpf_inv_def raster_action_fields)
next
  case Tick
  with f d tick_action_cases [of s] show ?thesis
    by (auto simp add: fpf_inv_def)
next
  case (Ack a)
  with f d show ?thesis
    by (simp add: fpf_inv_def ack_action_fields)
next
  case (Generation_ended finished)
  show ?thesis
  proof (cases "encode_jobs s = []")
    case True
    with f d Generation_ended show ?thesis by simp
  next
    case False
    define n where "n = length (cumulative_fpf s)"
    define out where "out = do_encode_job cdc (hd (encode_jobs s))"
    have cnt: "frame_no s = of_nat (length (cumulative_fpf s))"
      using c by (simp add: counters_inv_def)
    have len: "length (socket s) = n"
      using c by (simp add: counters_inv_def n_def)
    from d Generation_ended False
    have s': "cumulative_fpf s' = cumulative_fpf s @
                [if 0 < frame_no s
                 then cumulative_fpf s ! unat (frame_no s - 1) + ucast (nfrag (out_frame out))
                 else ucast (nfrag (out_frame out))]"
      and sock: "socket s' = socket s @
                [\<lparr>ff_connection_id = connection_id s, ff_frame_no = frame_no s,
                  ff_time_per_frame = 83000, ff_frame = out_frame out\<rparr>]"
      by (auto simp add: ended_after_coordinator [OF False cnt] out_def)
    show ?thesis
      unfolding fpf_inv_def
    proof (intro allI impI)
      fix k
      assume k: "k < length (cumulative_fpf s')" and k32: "k < 2 ^ 32"
      show "ff_frame_no (socket s' ! k) = word_of_nat k \<and>
            cumulative_fpf s' ! k =
              (if k = 0 then 0 else cumulative_fpf s' ! (k - 1)) + ucast (nfrag (ff_frame (socket s' ! k)))"
      proof (cases "k < n")
        case True
        then have "k - 1 < length (cumulative_fpf s)"
          by (simp add: n_def)
        with True have "cumulative_fpf s' ! k = cumulative_fpf s ! k"
          "socket s' ! k = socket s ! k"
          "cumulative_fpf s' ! (k - 1) = cumulative_fpf s ! (k - 1)"
          by (simp_all add: s' sock nth_append n_def len)
        with f True k32 show ?thesis
          by (auto simp add: fpf_inv_def n_def)
      next
        case False
        with k have kn: "k = n" by (simp add: s' n_def)
        have un: "unat (frame_no s) = n"
          using cnt k32 kn by (simp add: n_def unat_of_nat)
        have pos: "0 < frame_no s \<longleftrightarrow> 0 < n"
          using un by (simp add: word_gt_0 unat_gt_0 [symmetric] del: unat_gt_0)
        have pred: "0 < n \<Longrightarrow> unat (frame_no s - 1) = n - 1"
          using un pos by (simp add: unat_minus_one word_gt_0)
        have a: "socket s' ! k = \<lparr>ff_connection_id = connection_id s, ff_frame_no = frame_no s,
                  ff_time_per_frame = 83000, ff_frame = out_frame out\<rparr>"
          by (simp add: sock kn len [symmetric])
        have b: "cumulative_fpf s' ! k = (if 0 < n
                 then cumulative_fpf s ! (n - 1) + ucast (nfrag (out_frame out))
                 else ucast (nfrag (out_frame out)))"
          using pos pred by (simp add: s' kn n_def)
        have c': "0 < n \<Longrightarrow> cumulative_fpf s' ! (k - 1) = cumulative_fpf s ! (n - 1)"
          by (simp add: s' kn nth_append n_def)
        show ?thesis
          using a b c' cnt by (auto simp add: kn n_def)
      qed
    qed
  qed
qed

lemma inv_main_loop:
  assumes "counters_inv s" and "fpf_inv nfrag s" and "main_loop cdc nfrag es s = (Continue, s')"
  shows "counters_inv s' \<and> fpf_inv nfrag s'"
  using assms
proof (induction es arbitrary: s)
  case Nil
  then show ?case by simp
next
  case (Cons e es)
  obtain r s1 where d: "dispatch cdc nfrag e s = (r, s1)" by (cases "dispatch cdc nfrag e s")
  with Cons.prems(3) have r: "r = Continue" and m: "main_loop cdc nfrag es s1 = (Continue, s')"
    by (cases r; simp)+
  from d r Cons.prems(1,2) have i1: "counters_inv s1" and i2: "fpf_inv nfrag s1"
    by (auto intro: counters_inv_dispatch fpf_inv_dispatch)
  show ?case by (rule Cons.IH [OF i1 i2 m])
qed

lemma reachable_inv:
  assumes "reachable cdc nfrag (initial qi cid enc) s"
  shows "counters_inv s" and "fpf_inv nfrag s"
proof -
  from assms obtain es where "main_loop cdc nfrag es (initial qi cid enc) = (Continue, s)"
    unfolding reachable_def by blast
  from inv_main_loop [OF counters_inv_initial fpf_inv_initial this]
  show "counters_inv s" and "fpf_inv nfrag s" by simp_all
qed






text \<open>
  Claim C7: in every reachable state at most one job, hence at most one generation,
  is in flight; a tick that finds a job in flight or no raster returns the state
  unchanged; and a tick changes \<open>encode_jobs\<close> only when it was empty.
\<close>

theorem tick_dropped:
  assumes "reachable cdc nfrag (initial qi cid enc) s"
  shows "length (encode_jobs s) \<le> 1 \<and>
         (encode_jobs s \<noteq> [] \<or> last_raster s = None \<longrightarrow> tick_action s = (Continue, s)) \<and>
         (encode_jobs (snd (tick_action s)) \<noteq> encode_jobs s \<longrightarrow> encode_jobs s = [])"
proof -
  have "length (encode_jobs s) \<le> 1"
    using reachable_inv(1) [OF assms] by (simp add: counters_inv_def)
  moreover have "encode_jobs s \<noteq> [] \<or> last_raster s = None \<Longrightarrow> tick_action s = (Continue, s)"
    by (auto simp add: tick_action_def)
  moreover have "encode_jobs (snd (tick_action s)) \<noteq> encode_jobs s \<Longrightarrow> encode_jobs s = []"
    using tick_action_cases [of s] by auto
  ultimately show ?thesis by blast
qed

theorem tick_dropped_witness:
  "reachable sample_codec three_fragments (initial 300 7 0) generating_state \<and>
   encode_jobs generating_state \<noteq> [] \<and>
   length (encode_jobs generating_state) \<le> 1 \<and>
   tick_action generating_state = (Continue, generating_state)"
proof -
  have "encode_jobs generating_state \<noteq> []"
    by (simp add: generating_state_def)
  with tick_dropped [OF generating_state_reachable] generating_state_reachable
  show ?thesis by blast
qed







lemma ended_action_no_valid:
  assumes "\<not> list_ex valid (encode_outputs s)"
  shows "ended_action nfrag s = (Continue, s\<lparr>encode_jobs := []\<rparr>)"
  using assms by (simp add: ended_action_def)

lemma launched_all_valid:
  "list_all valid (launched cdc finished s)"
  by (auto simp add: launched_def coordinator_def list_all_iff valid_def)

text \<open>
  Claim C2 fails on the code. In \<open>generating_state\<close> one job is in flight; it has not
  finished when the coordinator's token arrives (\<open>Generation_ended [False]\<close>), so its
  future is \<open>Pending\<close>. \<open>valid()\<close> holds for it, the branch that discards the
  generation is not taken, \<open>get()\<close> waits for the job, and the frame is sent,
  \<open>cumulative_fpf\<close> extended, the encoder committed and \<open>frame_no\<close> advanced.
\<close>

theorem missed_deadline_is_sent:
  "launched sample_codec [False] generating_state
     = [Pending \<lparr>out_encoder = 1, out_frame = [44], out_encode_time = 40\<rparr>] \<and>
   dispatch sample_codec three_fragments (Generation_ended [False]) generating_state
     = (Continue,
        generating_state\<lparr>encode_outputs := [No_state],
          socket := [\<lparr>ff_connection_id = 7, ff_frame_no = 0, ff_time_per_frame = 83000,
                      ff_frame = [44]\<rparr>],
          cumulative_fpf := [3], encoder := 1, skipped_count := 0, frame_no := 1,
          encode_jobs := []\<rparr>)"
  by (simp add: generating_state_def initial_def sample_codec_def three_fragments_def launched_def
      action_defs)

lemma fragment_count_bound:
  fixes c :: "16 word"
  shows "unat (ucast c :: 64 word) = unat c" and "unat c \<le> 65535"
proof -
  have "uint (ucast c :: 64 word) = uint c"
    by (rule uint_up_ucast) (simp add: is_up)
  then show "unat (ucast c :: 64 word) = unat c"
    by (simp only: unat_eq_nat_uint)
  have "unat c < 2 ^ LENGTH(16)" by (rule unsigned_less)
  then show "unat c \<le> 65535" by simp
qed

lemma fpf_entry_bound:
  assumes "fpf_inv nfrag s" and "k < length (cumulative_fpf s)" and "k < 2 ^ 32"
  shows "unat (cumulative_fpf s ! k) \<le> (k + 1) * 65535"
  using assms(2,3)
proof (induction k)
  case 0
  with assms(1) have "cumulative_fpf s ! 0 = ucast (nfrag (ff_frame (socket s ! 0)))"
    by (simp add: fpf_inv_def)
  then show ?case
    using fragment_count_bound [of "nfrag (ff_frame (socket s ! 0))"] by simp
next
  case (Suc k)
  then have ih: "unat (cumulative_fpf s ! k) \<le> (k + 1) * 65535" by simp
  from assms(1) Suc.prems
  have e: "cumulative_fpf s ! Suc k
           = cumulative_fpf s ! k + ucast (nfrag (ff_frame (socket s ! Suc k)))"
    by (simp add: fpf_inv_def)
  have "unat (cumulative_fpf s ! Suc k)
        \<le> unat (cumulative_fpf s ! k) + unat (ucast (nfrag (ff_frame (socket s ! Suc k))) :: 64 word)"
    unfolding e by (simp add: unat_word_ariths)
  also have "\<dots> \<le> (k + 1) * 65535 + 65535"
    using ih fragment_count_bound [of "nfrag (ff_frame (socket s ! Suc k))"] by simp
  finally show ?case by simp
qed

lemma fpf_strictly_increasing:
  assumes inv: "fpf_inv nfrag s"
      and k: "0 < k" "k < length (cumulative_fpf s)" "k < 2 ^ 32"
      and frag: "0 < nfrag (ff_frame (socket s ! k))"
  shows "cumulative_fpf s ! (k - 1) < cumulative_fpf s ! k"
proof -
  define a where "a = cumulative_fpf s ! (k - 1)"
  define c :: "64 word" where "c = ucast (nfrag (ff_frame (socket s ! k)))"
  have e: "cumulative_fpf s ! k = a + c"
    using inv k by (simp add: fpf_inv_def a_def c_def)
  have "unat a \<le> (k - 1 + 1) * 65535"
    unfolding a_def using inv k by (intro fpf_entry_bound) simp_all
  also have "\<dots> \<le> 2 ^ 32 * 65535"
    using k by simp
  finally have a_bound: "unat a \<le> 2 ^ 32 * 65535" .
  have c_val: "unat c = unat (nfrag (ff_frame (socket s ! k)))"
    unfolding c_def by (rule fragment_count_bound)
  have c_bound: "unat c \<le> 65535"
    unfolding c_val by (rule fragment_count_bound)
  have c_pos: "0 < unat c"
    unfolding c_val using frag by (simp add: word_gt_0 unat_gt_0)
  have "unat a + unat c < 2 ^ 64"
    using a_bound c_bound by simp
  then have "unat (a + c) = unat a + unat c"
    by (simp add: unat_add_lem [symmetric])
  with c_pos show ?thesis
    unfolding e a_def [symmetric] by (simp add: word_less_nat_alt)
qed

lemma dispatch_sends_at_most_one:
  assumes c: "counters_inv s" and d: "dispatch cdc nfrag e s = (Continue, s')"
  shows "(socket s' = socket s \<and> cumulative_fpf s' = cumulative_fpf s) \<or>
         (\<exists>ff x. socket s' = socket s @ [ff] \<and> cumulative_fpf s' = cumulative_fpf s @ [x])"
proof (cases e)
  case (Frame x)
  with d show ?thesis by (simp add: raster_action_fields)
next
  case Tick
  with d tick_action_cases [of s] show ?thesis by auto
next
  case (Ack a)
  with d show ?thesis by (simp add: ack_action_fields)
next
  case (Generation_ended finished)
  show ?thesis
  proof (cases "encode_jobs s = []")
    case True
    with d Generation_ended show ?thesis by simp
  next
    case False
    have cnt: "frame_no s = of_nat (length (cumulative_fpf s))"
      using c by (simp add: counters_inv_def)
    from d Generation_ended False show ?thesis
      by (auto simp add: ended_after_coordinator [OF False cnt])
  qed
qed

lemma main_loop_append:
  "main_loop cdc nfrag (es @ es') s =
     (case main_loop cdc nfrag es s of
        (Continue, s1) \<Rightarrow> main_loop cdc nfrag es' s1
      | (r, s1) \<Rightarrow> (r, s1))"
proof (induction es arbitrary: s)
  case Nil
  show ?case by simp
next
  case (Cons e es)
  obtain r s1 where d: "dispatch cdc nfrag e s = (r, s1)" by (cases "dispatch cdc nfrag e s")
  show ?case
    by (cases r) (simp_all add: d Cons.IH)
qed

lemma long_run_generation:
  "dispatch unit_codec one_fragment (Generation_ended [True])
     ((long_run_state n)\<lparr>encode_jobs := [j]\<rparr>)
   = (Continue,
      (long_run_state n)
        \<lparr>encode_outputs := [No_state],
         socket := socket (long_run_state n) @ [empty_frame 0\<lparr>ff_frame_no := of_nat n\<rparr>],
         cumulative_fpf := cumulative_fpf (long_run_state n) @
           [if 0 < (of_nat n :: 32 word)
            then cumulative_fpf (long_run_state n) ! unat (of_nat n - 1 :: 32 word) + 1
            else 1],
         frame_no := of_nat n + 1\<rparr>)"
proof -
  let ?s = "(long_run_state n)\<lparr>encode_jobs := [j]\<rparr>"
  have jobs: "encode_jobs ?s \<noteq> []" by simp
  have cnt: "frame_no ?s = of_nat (length (cumulative_fpf ?s))"
    by (simp add: long_run_state_def del: upt_Suc)
  show ?thesis
    by (simp add: ended_after_coordinator [OF jobs cnt] launched_single [of ?s j]
        one_fragment_def empty_frame_def)
      (simp add: long_run_state_def unit_codec_def do_encode_job_def del: upt_Suc
        split: EncoderMode.splits)
qed

lemma long_run_entry:
  assumes "n < 2 ^ 32"
  shows "(if 0 < (of_nat n :: 32 word)
          then cumulative_fpf (long_run_state n) ! unat (of_nat n - 1 :: 32 word) + 1
          else 1) = (of_nat (Suc n) :: 64 word)"
proof (cases n)
  case 0
  then show ?thesis by simp
next
  case (Suc m)
  have un: "unat (of_nat n :: 32 word) = n"
    using assms by (simp add: unat_of_nat)
  then have nz: "(of_nat n :: 32 word) \<noteq> 0"
    using Suc by (metis unat_0 old.nat.distinct(2))
  then have "unat (of_nat n - 1 :: 32 word) = unat (of_nat n :: 32 word) - 1"
    by (rule unat_minus_one)
  then have pred: "unat (of_nat n - 1 :: 32 word) = m"
    unfolding un using Suc by simp
  have nth: "cumulative_fpf (long_run_state n) ! m = of_nat (Suc m)"
    using Suc by (simp add: long_run_state_def nth_append del: upt_Suc)
  have "(if 0 < (of_nat n :: 32 word)
          then cumulative_fpf (long_run_state n) ! unat (of_nat n - 1 :: 32 word) + 1
          else 1) = cumulative_fpf (long_run_state n) ! m + 1"
    using nz by (simp add: pred word_gt_0)
  also have "\<dots> = of_nat (Suc n)"
    using nth by (simp add: Suc)
  finally show ?thesis .
qed

lemma long_run_round:
  assumes "n < 2 ^ 32"
  shows "main_loop unit_codec one_fragment [Tick, Generation_ended [True]] (long_run_state n)
         = (Continue, long_run_state (Suc n))"
proof -
  have e: "encode_jobs (long_run_state n) = []" and r: "last_raster (long_run_state n) = Some ()"
    by (simp_all add: long_run_state_def)
  show ?thesis
    by (simp add: tick_action_spawn [OF e r] long_run_generation long_run_entry [OF assms]
        del: dispatch.simps(3))
      (simp add: long_run_state_def empty_frame_def)
qed

lemma long_run_rounds:
  assumes "n \<le> 2 ^ 32"
  shows "main_loop unit_codec one_fragment (concat (replicate n [Tick, Generation_ended [True]]))
           (long_run_state 0)
         = (Continue, long_run_state n)"
  using assms
proof (induction n)
  case 0
  show ?case by simp
next
  case (Suc n)
  then have ih: "main_loop unit_codec one_fragment
                   (concat (replicate n [Tick, Generation_ended [True]])) (long_run_state 0)
                 = (Continue, long_run_state n)"
    and n: "n < 2 ^ 32"
    by simp_all
  have "concat (replicate (Suc n) [Tick, Generation_ended [True] :: unit event])
        = concat (replicate n [Tick, Generation_ended [True]]) @ [Tick, Generation_ended [True]]"
  proof -
    have "replicate (Suc n) [Tick, Generation_ended [True] :: unit event]
          = replicate n [Tick, Generation_ended [True]] @ [[Tick, Generation_ended [True]]]"
      by (simp add: replicate_append_same)
    then show ?thesis
      by (simp only: concat_append) simp
  qed
  then show ?case
    by (simp only: main_loop_append ih long_run_round [OF n] prod.case ResultType.case)
qed

lemma long_run_start:
  "main_loop unit_codec one_fragment [Frame (Some ())] (initial 0 0 ()) = (Continue, long_run_state 0)"
  by (simp add: raster_action_def initial_def long_run_state_def)

lemma long_run_reachable:
  assumes "n \<le> 2 ^ 32"
  shows "reachable unit_codec one_fragment (initial 0 0 ()) (long_run_state n)"
proof -
  have "main_loop unit_codec one_fragment
          ([Frame (Some ())] @ concat (replicate n [Tick, Generation_ended [True]])) (initial 0 0 ())
        = (Continue, long_run_state n)"
    by (simp only: main_loop_append long_run_start long_run_rounds [OF assms] prod.case
        ResultType.case)
  then show ?thesis
    unfolding reachable_def by blast
qed

lemma wrap_facts:
  "(of_nat frames_until_wrap :: 32 word) = 0"
  "(of_nat frames_until_wrap :: 64 word) = 4294967296"
  "0 < frames_until_wrap"
  by (simp_all add: frames_until_wrap_def)

lemma wrapped_state_round:
  "main_loop unit_codec one_fragment [Tick, Generation_ended [True]]
     (long_run_state frames_until_wrap) = (Continue, wrapped_state)"
proof -
  have e: "encode_jobs (long_run_state frames_until_wrap) = []"
    and r: "last_raster (long_run_state frames_until_wrap) = Some ()"
    by (simp_all add: long_run_state_def)
  show ?thesis
    by (simp add: tick_action_spawn [OF e r] long_run_generation wrap_facts
        del: dispatch.simps(3))
      (simp add: wrapped_state_def long_run_state_def empty_frame_def wrap_facts)
qed

lemma wrapped_state_reachable:
  "reachable unit_codec one_fragment (initial 0 0 ()) wrapped_state"
proof -
  have "frames_until_wrap \<le> 2 ^ 32" by (simp add: frames_until_wrap_def)
  then have "main_loop unit_codec one_fragment
          (([Frame (Some ())] @ concat (replicate frames_until_wrap [Tick, Generation_ended [True]]))
            @ [Tick, Generation_ended [True]]) (initial 0 0 ())
        = (Continue, wrapped_state)"
    by (simp only: main_loop_append long_run_start long_run_rounds wrapped_state_round prod.case
        ResultType.case)
  then show ?thesis
    unfolding reachable_def by blast
qed

text \<open>
  Claim C8, as stated, fails once \<open>frame_no\<close> (32 bits) has wrapped. After 2^32 frames
  of one fragment each, \<open>cumulative_fpf[ 2^32 - 1 ] = 2^32\<close> and \<open>frame_no = 0\<close>; the
  next frame, again of one fragment, is taken for the first one and gets the entry 1,
  not \<open>2^32 + 1\<close>, and the sequence is not increasing there.
\<close>

theorem cumulative_fpf_wraps_counterexample:
  "reachable unit_codec one_fragment (initial 0 0 ()) wrapped_state \<and>
   length (cumulative_fpf wrapped_state) = Suc frames_until_wrap \<and>
   length (socket wrapped_state) = Suc frames_until_wrap \<and>
   frames_until_wrap = 2 ^ 32 \<and>
   cumulative_fpf wrapped_state ! (frames_until_wrap - 1) = 4294967296 \<and>
   one_fragment (ff_frame (socket wrapped_state ! frames_until_wrap)) = 1 \<and>
   cumulative_fpf wrapped_state ! frames_until_wrap = 1"
proof -
  have len: "length (cumulative_fpf (long_run_state frames_until_wrap)) = frames_until_wrap"
    by (simp add: long_run_state_def del: upt_Suc)
  have a: "length (cumulative_fpf wrapped_state) = Suc frames_until_wrap"
    by (simp add: wrapped_state_def len)
  have b: "length (socket wrapped_state) = Suc frames_until_wrap"
    by (simp add: wrapped_state_def long_run_state_def)
  have c: "cumulative_fpf wrapped_state ! frames_until_wrap = 1"
    by (simp add: wrapped_state_def nth_append len)
  have "cumulative_fpf wrapped_state ! (frames_until_wrap - 1)
        = cumulative_fpf (long_run_state frames_until_wrap) ! (frames_until_wrap - 1)"
    using wrap_facts(3) by (simp add: wrapped_state_def nth_append len)
  also have "\<dots> = of_nat (1 + (frames_until_wrap - 1))"
    using wrap_facts(3) by (simp add: long_run_state_def del: upt_Suc)
  also have "\<dots> = (4294967296 :: 64 word)"
    using wrap_facts(2,3) by simp
  finally have d: "cumulative_fpf wrapped_state ! (frames_until_wrap - 1) = 4294967296" .
  have e: "one_fragment (ff_frame (socket wrapped_state ! frames_until_wrap)) = 1"
    by (simp add: one_fragment_def)
  from wrapped_state_reachable a b c d e show ?thesis
    by (simp add: frames_until_wrap_def)
qed

text \<open>
  Claim C8, amended: in every reachable state \<open>cumulative_fpf\<close> has one entry per frame
  sent, and every action that sends a frame appends exactly one entry (no other
  action changes the sequence); for \<open>k < 2^32\<close>, entry \<open>k\<close> is entry \<open>k - 1\<close> plus the
  fragment count of frame \<open>k\<close> (the fragment count alone for \<open>k = 0\<close>), and it is
  strictly greater than entry \<open>k - 1\<close> when frame \<open>k\<close> has at least one fragment.
\<close>

theorem cumulative_fpf_entries:
  fixes s :: "('enc, 'ras) sender"
  assumes "reachable cdc nfrag (initial qi cid enc) s"
  shows "length (cumulative_fpf s) = length (socket s) \<and>
         (\<forall>k < length (cumulative_fpf s). k < 2 ^ 32 \<longrightarrow>
            cumulative_fpf s ! k
              = (if k = 0 then 0 else cumulative_fpf s ! (k - 1))
                + ucast (nfrag (ff_frame (socket s ! k)))) \<and>
         (\<forall>k < length (cumulative_fpf s). 0 < k \<and> k < 2 ^ 32 \<and> 0 < nfrag (ff_frame (socket s ! k))
            \<longrightarrow> cumulative_fpf s ! (k - 1) < cumulative_fpf s ! k) \<and>
         (\<forall>e s'. dispatch cdc nfrag e s = (Continue, s') \<longrightarrow>
            (socket s' = socket s \<and> cumulative_fpf s' = cumulative_fpf s) \<or>
            (\<exists>ff x. socket s' = socket s @ [ff] \<and> cumulative_fpf s' = cumulative_fpf s @ [x]))"
proof (intro conjI allI impI)
  note c = reachable_inv(1) [OF assms] and f = reachable_inv(2) [OF assms]
  show "length (cumulative_fpf s) = length (socket s)"
    using c by (simp add: counters_inv_def)
  show "cumulative_fpf s ! k
              = (if k = 0 then 0 else cumulative_fpf s ! (k - 1))
                + ucast (nfrag (ff_frame (socket s ! k)))"
    if "k < length (cumulative_fpf s)" "k < 2 ^ 32" for k
    using f that by (simp add: fpf_inv_def)
  show "cumulative_fpf s ! (k - 1) < cumulative_fpf s ! k"
    if "k < length (cumulative_fpf s)"
      "0 < k \<and> k < 2 ^ 32 \<and> 0 < nfrag (ff_frame (socket s ! k))" for k
    using that(2) by (intro fpf_strictly_increasing [OF f _ that(1)]) blast+
  show "(socket s' = socket s \<and> cumulative_fpf s' = cumulative_fpf s) \<or>
        (\<exists>ff x. socket s' = socket s @ [ff] \<and> cumulative_fpf s' = cumulative_fpf s @ [x])"
    if "dispatch cdc nfrag e s = (Continue, s')" for e s'
    using c that by (rule dispatch_sends_at_most_one)
qed

lemma two_frames_state_reachable:
  "reachable sample_codec three_fragments (initial 300 7 0) two_frames_state"
proof -
  have "main_loop sample_codec three_fragments
          [Frame (Some 0), Tick, Generation_ended [True], Tick, Generation_ended [False]]
          (initial 300 7 0)
        = (Continue, two_frames_state)"
    by (simp add: sample_codec_def three_fragments_def initial_def two_frames_state_def
        action_defs)
  then show ?thesis
    unfolding reachable_def by blast
qed

theorem cumulative_fpf_entries_witness:
  "reachable sample_codec three_fragments (initial 300 7 0) two_frames_state \<and>
   length (cumulative_fpf two_frames_state) = length (socket two_frames_state) \<and>
   (1 :: nat) < length (cumulative_fpf two_frames_state) \<and>
   0 < three_fragments (ff_frame (socket two_frames_state ! 1)) \<and>
   cumulative_fpf two_frames_state ! 1
     = cumulative_fpf two_frames_state ! 0
       + ucast (three_fragments (ff_frame (socket two_frames_state ! 1))) \<and>
   cumulative_fpf two_frames_state ! 0 < cumulative_fpf two_frames_state ! 1"
proof -
  note e = cumulative_fpf_entries [OF two_frames_state_reachable]
  have k: "(1 :: nat) < length (cumulative_fpf two_frames_state)"
    and f: "0 < three_fragments (ff_frame (socket two_frames_state ! 1))"
    by (simp_all add: two_frames_state_def three_fragments_def)
  from e have a: "length (cumulative_fpf two_frames_state) = length (socket two_frames_state)"
    by (rule conjunct1)
  from e have "\<forall>k < length (cumulative_fpf two_frames_state). k < 2 ^ 32 \<longrightarrow>
            cumulative_fpf two_frames_state ! k
              = (if k = 0 then 0 else cumulative_fpf two_frames_state ! (k - 1))
                + ucast (three_fragments (ff_frame (socket two_frames_state ! k)))"
    by (elim conjE)
  from this [rule_format, of 1] k
  have b: "cumulative_fpf two_frames_state ! 1
     = cumulative_fpf two_frames_state ! 0
       + ucast (three_fragments (ff_frame (socket two_frames_state ! 1)))"
    by simp
  from e have "\<forall>k < length (cumulative_fpf two_frames_state).
            0 < k \<and> k < 2 ^ 32 \<and> 0 < three_fragments (ff_frame (socket two_frames_state ! k))
            \<longrightarrow> cumulative_fpf two_frames_state ! (k - 1) < cumulative_fpf two_frames_state ! k"
    by (elim conjE)
  from this [rule_format, of 1] k f
  have c: "cumulative_fpf two_frames_state ! 0 < cumulative_fpf two_frames_state ! 1"
    by simp
  from two_frames_state_reachable a k f b c show ?thesis
    by (intro conjI)
qed



section \<open>The command-line integer parser\<close>

lemma digit_char:
  fixes n :: int
  assumes "0 \<le> n" and "n < 10"
  shows "isdigit (char_of (48 + n))" and "digit_value (char_of (48 + n)) = n"
    and "char_of (48 + n) = CHR ''0'' \<longleftrightarrow> n = 0"
proof -
  have vi: "(of_char (char_of (48 + n)) :: int) = 48 + n"
    using assms by (simp add: of_char_of)
  have "int (of_char (char_of (48 + n)) :: nat) = (of_char (char_of (48 + n)) :: int)"
    by (rule of_nat_of_char)
  then have vn: "(of_char (char_of (48 + n)) :: nat) = nat (48 + n)"
    unfolding vi by linarith
  show "isdigit (char_of (48 + n))"
    unfolding isdigit_def vn using assms by linarith
  show "digit_value (char_of (48 + n)) = n"
    unfolding digit_value_def vi by simp
  show "char_of (48 + n) = CHR ''0'' \<longleftrightarrow> n = 0"
  proof
    assume "char_of (48 + n) = CHR ''0''"
    then have "(of_char (char_of (48 + n)) :: int) = of_char CHR ''0''" by simp
    then show "n = 0" unfolding vi by simp
  next
    assume "n = 0"
    have "(of_char CHR ''0'' :: int) = 48" by simp
    then have "char_of (48 :: int) = char_of (of_char CHR ''0'' :: int)" by simp
    then have "char_of (48 :: int) = CHR ''0''" by (simp only: char_of_char)
    with \<open>n = 0\<close> show "char_of (48 + n) = CHR ''0''" by simp
  qed
qed

lemma to_digits_digits:
  assumes "0 \<le> n"
  shows "list_all isdigit (to_digits n)"
  using assms
proof (induction n rule: to_digits.induct)
  case (1 n)
  show ?case
  proof (cases "n < 10")
    case True
    with "1.prems" show ?thesis
      by (subst to_digits.simps) (simp add: digit_char)
  next
    case False
    then have "0 \<le> n div 10" by simp
    with False have "list_all isdigit (to_digits (n div 10))" by (rule "1.IH")
    moreover have "isdigit (char_of (48 + n mod 10))" by (rule digit_char) simp_all
    ultimately show ?thesis
      using False by (subst to_digits.simps) simp
  qed
qed

lemma to_digits_nonempty: "to_digits n \<noteq> []"
  by (subst to_digits.simps) simp

lemma decimal_value_snoc:
  "decimal_value (ds @ [c]) = 10 * decimal_value ds + digit_value c"
  by (simp add: decimal_value_def)

lemma decimal_value_to_digits:
  assumes "0 \<le> n"
  shows "decimal_value (to_digits n) = n"
  using assms
proof (induction n rule: to_digits.induct)
  case (1 n)
  show ?case
  proof (cases "n < 10")
    case True
    with "1.prems" show ?thesis
      by (subst to_digits.simps) (simp add: decimal_value_def digit_char)
  next
    case False
    then have "0 \<le> n div 10" by simp
    with False have "decimal_value (to_digits (n div 10)) = n div 10" by (rule "1.IH")
    moreover have "digit_value (char_of (48 + n mod 10)) = n mod 10" by (rule digit_char) simp_all
    ultimately show ?thesis
      using False by (subst to_digits.simps) (simp add: decimal_value_snoc)
  qed
qed

lemma to_digits_hd:
  assumes "0 \<le> n"
  shows "\<exists>c t. to_digits n = c # t \<and> isdigit c"
proof -
  obtain c t where ct: "to_digits n = c # t"
    using to_digits_nonempty [of n] by (cases "to_digits n") auto
  moreover have "isdigit c"
    using to_digits_digits [OF assms] by (simp add: ct)
  ultimately show ?thesis by blast
qed

lemma to_digits_hd_nonzero:
  assumes "0 < n"
  shows "hd (to_digits n) \<noteq> CHR ''0''"
  using assms
proof (induction n rule: to_digits.induct)
  case (1 n)
  show ?case
  proof (cases "n < 10")
    case True
    have "to_digits n = [char_of (48 + n)]"
      using True by (subst to_digits.simps) simp
    moreover have "char_of (48 + n) \<noteq> CHR ''0''"
      using "1.prems" True digit_char(3) [of n] by simp
    ultimately show ?thesis by simp
  next
    case False
    then have "0 < n div 10" by simp
    with False have "hd (to_digits (n div 10)) \<noteq> CHR ''0''" by (rule "1.IH")
    moreover have "to_digits n = to_digits (n div 10) @ [char_of (48 + n mod 10)]"
      using False by (subst to_digits.simps) simp
    ultimately show ?thesis
      using to_digits_nonempty [of "n div 10"] by simp
  qed
qed

lemma to_digits_leading_zero:
  assumes "0 \<le> n" and "to_digits n = CHR ''0'' # t"
  shows "t = []"
proof -
  have "hd (to_digits n) = CHR ''0''" using assms(2) by simp
  then have "\<not> 0 < n" using to_digits_hd_nonzero [of n] by blast
  with assms(1) have "n = 0" by simp
  then have "to_digits n = [char_of (48 + n)]"
    by (subst to_digits.simps) simp
  with assms(2) show ?thesis by simp
qed

lemma stoul_to_digits:
  assumes "0 \<le> n" and "n < 2 ^ 64"
  shows "stoul (to_digits n) = Inr (word_of_int n)"
proof -
  define d where "d = to_digits n"
  obtain c t where ct: "d = c # t" and c: "isdigit c"
    using to_digits_hd [OF assms(1)] unfolding d_def by blast
  have nsp: "\<not> isspace c" and nsign: "c \<noteq> CHR ''-''" "c \<noteq> CHR ''+''"
    using c by (auto simp add: isdigit_def isspace_def)
  have dw: "dropWhile isspace d = d"
    using nsp by (simp add: ct)
  have neg: "(case d of c # x \<Rightarrow> c = CHR ''-'' | [] \<Rightarrow> False) = False"
    using nsign by (simp add: ct)
  have s2: "(case d of c # r \<Rightarrow> if c = CHR ''-'' \<or> c = CHR ''+'' then r else d | [] \<Rightarrow> []) = d"
    using nsign by (simp add: ct)
  have tw: "takeWhile isdigit d = d"
    using to_digits_digits [OF assms(1)] unfolding d_def by (simp add: list_all_iff)
  have ne: "d \<noteq> []" by (simp add: ct)
  have dv: "decimal_value d = n"
    unfolding d_def using assms(1) by (rule decimal_value_to_digits)
  have small: "\<not> (2 :: int) ^ 64 \<le> n" using assms(2) by simp
  have "stoul d = Inr (word_of_int n)"
    unfolding stoul_def Let_def dw neg s2 tw dv using ne small by simp
  then show ?thesis by (simp add: d_def)
qed

lemma paranoid_atoi_to_string: "paranoid_atoi (to_string v) = Inr v"
proof -
  have "uint v < 2 ^ LENGTH(32)" by (rule uint_lt2p)
  then have "uint v < 2 ^ 64" by simp
  moreover have "0 \<le> uint v" by simp
  ultimately have "stoul (to_string v) = Inr (word_of_int (uint v))"
    unfolding to_string_def by (intro stoul_to_digits)
  moreover have "(word_of_int (uint v) :: 64 word) = ucast v"
    by simp
  moreover have "(ucast (ucast v :: 64 word) :: 32 word) = v"
    by (rule ucast_up_ucast_id) (simp add: is_up)
  ultimately show ?thesis
    by (simp add: paranoid_atoi_def Let_def)
qed

lemma paranoid_atoi_accepts:
  assumes "paranoid_atoi s = Inr v"
  shows "s = to_string v"
  using assms by (auto simp add: paranoid_atoi_def Let_def split: sum.splits if_splits)

lemma paranoid_atoi_total: "(\<exists>v. paranoid_atoi s = Inr v) \<or> (\<exists>e. paranoid_atoi s = Inl e)"
  by (cases "paranoid_atoi s") auto

text \<open>
  Claim C9: \<open>paranoid_atoi\<close> accepts a string (returns a value instead of throwing)
  iff \<open>stoul\<close> converts it and \<open>to_string\<close> of the converted value, narrowed to 32
  bits, is the string again; the accepted strings are exactly the decimal renderings
  \<open>to_string v\<close>, each returning its \<open>v\<close>; an accepted string consists of digits only
  and the value returned is its decimal value; a string with a character that is not
  a digit (a sign, white space, trailing garbage) and a string with a leading zero
  followed by more characters are rejected with an exception.
\<close>

theorem paranoid_atoi_roundtrip:
  "((\<exists>v. paranoid_atoi s = Inr v) \<longleftrightarrow> (\<exists>u. stoul s = Inr u \<and> to_string (ucast u) = s)) \<and>
   (\<forall>v. paranoid_atoi s = Inr v \<longleftrightarrow> s = to_string v) \<and>
   (\<forall>v. paranoid_atoi s = Inr v \<longrightarrow> uint v = decimal_value s \<and> list_all isdigit s) \<and>
   ((\<exists>c \<in> set s. \<not> isdigit c) \<longrightarrow> (\<exists>e. paranoid_atoi s = Inl e)) \<and>
   ((\<exists>t. t \<noteq> [] \<and> s = CHR ''0'' # t) \<longrightarrow> (\<exists>e. paranoid_atoi s = Inl e))"
proof -
  have p1: "(\<exists>v. paranoid_atoi s = Inr v) \<longleftrightarrow> (\<exists>u. stoul s = Inr u \<and> to_string (ucast u) = s)"
    by (auto simp add: paranoid_atoi_def Let_def split: sum.splits if_splits)
  have p2: "paranoid_atoi s = Inr v \<longleftrightarrow> s = to_string v" for v
    using paranoid_atoi_accepts [of s v] paranoid_atoi_to_string [of v] by auto
  have p3: "uint v = decimal_value s \<and> list_all isdigit s" if "paranoid_atoi s = Inr v" for v
  proof -
    have "s = to_digits (uint v)"
      using paranoid_atoi_accepts [OF that] by (simp add: to_string_def)
    then show ?thesis
      by (simp add: decimal_value_to_digits to_digits_digits)
  qed
  have p4: "\<exists>e. paranoid_atoi s = Inl e" if "\<exists>c \<in> set s. \<not> isdigit c"
  proof (rule ccontr)
    assume "\<not> (\<exists>e. paranoid_atoi s = Inl e)"
    then obtain v where "paranoid_atoi s = Inr v"
      using paranoid_atoi_total [of s] by blast
    then have "list_all isdigit s" using p3 by blast
    with that show False by (auto simp add: list_all_iff)
  qed
  have p5: "\<exists>e. paranoid_atoi s = Inl e" if "\<exists>t. t \<noteq> [] \<and> s = CHR ''0'' # t"
  proof (rule ccontr)
    assume "\<not> (\<exists>e. paranoid_atoi s = Inl e)"
    then obtain v where "paranoid_atoi s = Inr v"
      using paranoid_atoi_total [of s] by blast
    then have "s = to_digits (uint v)"
      using paranoid_atoi_accepts by (simp add: to_string_def)
    with that obtain t where "t \<noteq> []" "to_digits (uint v) = CHR ''0'' # t" by auto
    moreover have "0 \<le> uint v" by simp
    ultimately show False using to_digits_leading_zero by blast
  qed
  show ?thesis
  proof (intro conjI allI)
    show "(\<exists>v. paranoid_atoi s = Inr v) \<longleftrightarrow> (\<exists>u. stoul s = Inr u \<and> to_string (ucast u) = s)"
      by (rule p1)
    show "paranoid_atoi s = Inr v \<longleftrightarrow> s = to_string v" for v
      by (rule p2)
    show "paranoid_atoi s = Inr v \<longrightarrow> uint v = decimal_value s \<and> list_all isdigit s" for v
      using p3 [of v] by (intro impI)
    show "(\<exists>c \<in> set s. \<not> isdigit c) \<longrightarrow> (\<exists>e. paranoid_atoi s = Inl e)"
      using p4 by (intro impI)
    show "(\<exists>t. t \<noteq> [] \<and> s = CHR ''0'' # t) \<longrightarrow> (\<exists>e. paranoid_atoi s = Inl e)"
      using p5 by (intro impI)
  qed
qed

lemma to_string_42: "to_string 42 = ''42''"
  by code_simp

theorem paranoid_atoi_roundtrip_witness:
  "paranoid_atoi ''42'' = Inr 42 \<and>
   uint (42 :: 32 word) = decimal_value ''42'' \<and>
   (\<exists>e. paranoid_atoi ''042'' = Inl e) \<and>
   (\<exists>e. paranoid_atoi ''+42'' = Inl e) \<and>
   (\<exists>e. paranoid_atoi ''42abc'' = Inl e)"
proof -
  from paranoid_atoi_roundtrip [of "''42''"]
  have "\<forall>v. paranoid_atoi ''42'' = Inr v \<longleftrightarrow> ''42'' = to_string v"
    by (elim conjE)
  from this [rule_format, of 42] have a: "paranoid_atoi ''42'' = Inr 42"
    by (simp only: to_string_42)
  from paranoid_atoi_roundtrip [of "''42''"]
  have "\<forall>v. paranoid_atoi ''42'' = Inr v \<longrightarrow> uint v = decimal_value ''42'' \<and> list_all isdigit ''42''"
    by (elim conjE)
  from this [rule_format, OF a] have b: "uint (42 :: 32 word) = decimal_value ''42''"
    by (rule conjunct1)
  from paranoid_atoi_roundtrip [of "''042''"]
  have "(\<exists>t. t \<noteq> [] \<and> ''042'' = CHR ''0'' # t) \<longrightarrow> (\<exists>e. paranoid_atoi ''042'' = Inl e)"
    by (elim conjE)
  then have c: "\<exists>e. paranoid_atoi ''042'' = Inl e"
    by simp
  have "\<not> isdigit CHR ''+''" "\<not> isdigit CHR ''a''"
    by (simp_all add: isdigit_def)
  then have nd: "\<exists>c \<in> set ''+42''. \<not> isdigit c" "\<exists>c \<in> set ''42abc''. \<not> isdigit c"
    by simp_all
  from paranoid_atoi_roundtrip [of "''+42''"]
  have "(\<exists>c \<in> set ''+42''. \<not> isdigit c) \<longrightarrow> (\<exists>e. paranoid_atoi ''+42'' = Inl e)"
    by (elim conjE)
  with nd(1) have d: "\<exists>e. paranoid_atoi ''+42'' = Inl e"
    by (rule rev_mp)
  from paranoid_atoi_roundtrip [of "''42abc''"]
  have "(\<exists>c \<in> set ''42abc''. \<not> isdigit c) \<longrightarrow> (\<exists>e. paranoid_atoi ''42abc'' = Inl e)"
    by (elim conjE)
  with nd(2) have e: "\<exists>e. paranoid_atoi ''42abc'' = Inl e"
    by (rule rev_mp)
  from a b c d e show ?thesis
    by (intro conjI)
qed


section \<open>The two-dimensional container\<close>

lemma emplace_cell_grows:
  assumes "emplace_cell make_cell row column t = Inr t'"
  shows "twod_width t' = twod_width t \<and> twod_height t' = twod_height t \<and>
         length (twod_storage t') = Suc (length (twod_storage t))"
  using assms
  by (auto simp add: emplace_cell_def split: sum.splits if_splits)

lemma row_loop_grows:
  assumes "for_loop (emplace_cell make_cell row) columns t = Inr t'"
  shows "twod_width t' = twod_width t \<and> twod_height t' = twod_height t \<and>
         length (twod_storage t') = length (twod_storage t) + length columns"
  using assms
proof (induction columns arbitrary: t)
  case Nil
  then show ?case by simp
next
  case (Cons c columns)
  then obtain t1 where s: "emplace_cell make_cell row c t = Inr t1"
    and r: "for_loop (emplace_cell make_cell row) columns t1 = Inr t'"
    by (auto split: sum.splits)
  from emplace_cell_grows [OF s] Cons.IH [OF r] show ?case by simp
qed

lemma rows_loop_grows:
  assumes "for_loop (\<lambda>row. for_loop (emplace_cell make_cell row) columns) rows t = Inr t'"
  shows "twod_width t' = twod_width t \<and> twod_height t' = twod_height t \<and>
         length (twod_storage t') = length (twod_storage t) + length rows * length columns"
  using assms
proof (induction rows arbitrary: t)
  case Nil
  then show ?case by simp
next
  case (Cons r rows)
  then obtain t1 where s: "for_loop (emplace_cell make_cell r) columns t = Inr t1"
    and rest: "for_loop (\<lambda>row. for_loop (emplace_cell make_cell row) columns) rows t1 = Inr t'"
    by (auto split: sum.splits)
  from row_loop_grows [OF s] Cons.IH [OF rest] show ?case by simp
qed

lemma new_TwoD_shape:
  assumes "new_TwoD make_cell w h = Inr t"
  shows "twod_width t = w" and "twod_height t = h" and "0 < unat w" and "0 < unat h"
    and "length (twod_storage t) = unat h * unat w"
proof -
  from assms have w: "0 < w" and h: "0 < h"
    and l: "for_loop (\<lambda>row. for_loop (emplace_cell make_cell row) (map of_nat [0 ..< unat w]))
              (map of_nat [0 ..< unat h])
              \<lparr>twod_width = w, twod_height = h, twod_storage = []\<rparr> = Inr t"
    by (auto simp add: new_TwoD_def split: if_splits)
  from rows_loop_grows [OF l]
  show "twod_width t = w" and "twod_height t = h"
    and "length (twod_storage t) = unat h * unat w"
    by simp_all
  show "0 < unat w" and "0 < unat h"
    using w h by (simp_all add: word_gt_0 unat_gt_0)
qed

lemma unat_index_bound:
  fixes a b c :: "32 word"
  shows "unat (a * b + c) \<le> unat a * unat b + unat c"
proof -
  have "unat (a * b + c) \<le> unat (a * b) + unat c"
    by (simp add: unat_word_ariths)
  moreover have "unat (a * b) \<le> unat a * unat b"
    by (simp add: unat_word_ariths)
  ultimately show ?thesis by linarith
qed

lemma unat_sum_small:
  fixes a b :: "32 word"
  assumes "unat a + unat b \<le> unat (c :: 32 word)"
  shows "unat (a + b) = unat a + unat b"
proof -
  have "unat c < 2 ^ LENGTH(32)" by (rule unsigned_less)
  with assms have "unat a + unat b < 2 ^ LENGTH(32)" by linarith
  then show ?thesis by (simp only: unat_add_lem)
qed

lemma TwoD_at_in_storage:
  assumes w: "twod_width t = w" and h: "twod_height t = h"
      and len: "length (twod_storage t) = unat h * unat w"
      and col: "unat column \<le> unat w" and row: "unat row \<le> unat h"
      and inside: "unat row * unat w + unat column < unat h * unat w"
  shows "TwoD_at t column row = Inr (unat (row * w + column)) \<and>
         unat (row * w + column) < length (twod_storage t)"
proof -
  have guard: "\<not> (column > w \<or> row > h)"
    using col row by (simp add: word_less_nat_alt)
  have "unat (row * w + column) \<le> unat row * unat w + unat column"
    by (rule unat_index_bound)
  with inside have "unat (row * w + column) < length (twod_storage t)"
    by (simp add: len)
  with guard show ?thesis
    by (simp add: TwoD_at_def vector_at_def w h)
qed

lemma next_row_inside:
  fixes a hh ww :: nat
  assumes "a + 1 < hh" and "0 < ww" and "b \<le> ww"
  shows "a * ww + b < hh * ww"
proof -
  have "a * ww + b \<le> (a + 1) * ww" using assms(3) by simp
  also have "\<dots> < hh * ww" using assms(1,2) by (intro mult_less_mono1) simp_all
  finally show ?thesis .
qed

lemma new_TwoDSubRange_fields:
  assumes "new_TwoDSubRange t c r0 sw sh = Inr sr"
  shows "sr = \<lparr>sr_master = t, sr_column = c, sr_row = r0, sr_width = sw, sr_height = sh\<rparr>"
  using assms by (auto simp add: new_TwoDSubRange_def split: if_splits)

lemma TwoDSubRange_at_edge:
  assumes shape: "twod_width t = w" "twod_height t = h" "0 < unat w"
      "length (twod_storage t) = unat h * unat w"
    and sr: "sr = \<lparr>sr_master = t, sr_column = c, sr_row = r0, sr_width = sw, sr_height = sh\<rparr>"
    and fit: "unat c + unat sw \<le> unat w" "unat r0 + unat sh + 1 < unat h"
    and edge: "col \<le> sw" "row \<le> sh"
  shows "TwoDSubRange_at sr col row = TwoD_at t (c + col) (r0 + row) \<and>
         (\<exists>i < length (twod_storage t). TwoDSubRange_at sr col row = Inr i)"
proof -
  have cl: "unat col \<le> unat sw" and rl: "unat row \<le> unat sh"
    using edge by (simp_all add: word_le_nat_alt)
  have guard: "\<not> (col > sw \<or> row > sh)"
    using edge by (simp add: not_less)
  have uc: "unat (c + col) = unat c + unat col"
    using fit(1) cl by (intro unat_sum_small [of c col w]) simp
  have ur: "unat (r0 + row) = unat r0 + unat row"
    using fit(2) rl by (intro unat_sum_small [of r0 row h]) simp
  have inside: "unat (r0 + row) * unat w + unat (c + col) < unat h * unat w"
    unfolding uc ur using fit cl rl shape(3) by (intro next_row_inside) simp_all
  have "TwoD_at t (c + col) (r0 + row) = Inr (unat ((r0 + row) * w + (c + col))) \<and>
        unat ((r0 + row) * w + (c + col)) < length (twod_storage t)"
    using shape(1,2,4) _ _ inside
  proof (rule TwoD_at_in_storage)
    show "unat (c + col) \<le> unat w" unfolding uc using fit(1) cl by simp
    show "unat (r0 + row) \<le> unat h" unfolding ur using fit(2) rl by simp
  qed
  moreover have "TwoDSubRange_at sr col row = TwoD_at t (c + col) (r0 + row)"
    using guard by (simp add: TwoDSubRange_at_def sr)
  ultimately show ?thesis by simp
qed

text \<open>
  Claim C10: for a \<open>TwoD\<close> built by the constructor with width \<open>w\<close> and height \<open>h\<close> and a
  row \<open>r\<close> with \<open>r + 1 < h\<close>, \<open>at( w, r )\<close> does not throw; it returns the very
  reference that \<open>at( 0, r + 1 )\<close> returns, the cell at position \<open>(r + 1) * w\<close> of the
  storage (computed in 32 bits, hence exactly that product when the grid has fewer
  than 2^32 cells): the first cell of the next row. A \<open>TwoDSubRange\<close> over it accepts
  a column equal to its width and a row equal to its height in the same way: the
  call is passed on to the master at the position one past the window and, when the
  master has a row below the window, returns a cell of the master.
\<close>

theorem TwoD_at_one_past_the_end:
  assumes built: "new_TwoD make_cell w h = Inr t" and next_row: "unat r + 1 < unat h"
  shows "TwoD_at t w r = Inr (unat ((r + 1) * w)) \<and>
         TwoD_at t 0 (r + 1) = Inr (unat ((r + 1) * w)) \<and>
         unat ((r + 1) * w) < length (twod_storage t) \<and>
         (unat h * unat w < 2 ^ 32 \<longrightarrow> unat ((r + 1) * w) = (unat r + 1) * unat w) \<and>
         (\<forall>sr c r0 sw sh col row.
            new_TwoDSubRange t c r0 sw sh = Inr sr \<and>
            unat c + unat sw \<le> unat w \<and> unat r0 + unat sh + 1 < unat h \<and>
            col \<le> sw \<and> row \<le> sh \<longrightarrow>
              TwoDSubRange_at sr sw row = TwoD_at t (c + sw) (r0 + row) \<and>
              (\<exists>i < length (twod_storage t). TwoDSubRange_at sr sw row = Inr i) \<and>
              TwoDSubRange_at sr col sh = TwoD_at t (c + col) (r0 + sh) \<and>
              (\<exists>i < length (twod_storage t). TwoDSubRange_at sr col sh = Inr i))"
proof -
  note shape = new_TwoD_shape [OF built]
  have r1: "unat (r + 1) = unat r + 1"
  proof -
    have "unat r + unat (1 :: 32 word) \<le> unat h" using next_row by simp
    then have "unat (r + 1) = unat r + unat (1 :: 32 word)" by (rule unat_sum_small)
    then show ?thesis by simp
  qed
  have expand: "r * w + w = (r + 1) * w" "(r + 1) * w + 0 = (r + 1) * w"
    by (simp_all add: algebra_simps)
  have a: "TwoD_at t w r = Inr (unat (r * w + w)) \<and>
           unat (r * w + w) < length (twod_storage t)"
    using shape(1,2,5)
  proof (rule TwoD_at_in_storage)
    show "unat w \<le> unat w" by simp
    show "unat r \<le> unat h" using next_row by simp
    show "unat r * unat w + unat w < unat h * unat w"
      using next_row shape(3) by (intro next_row_inside) simp_all
  qed
  have b: "TwoD_at t 0 (r + 1) = Inr (unat ((r + 1) * w + 0)) \<and>
           unat ((r + 1) * w + 0) < length (twod_storage t)"
    using shape(1,2,5)
  proof (rule TwoD_at_in_storage)
    show "unat (0 :: 32 word) \<le> unat w" by simp
    show "unat (r + 1) \<le> unat h" unfolding r1 using next_row by simp
    have "(unat r + 1) * unat w < unat h * unat w"
      using next_row shape(3) by (intro mult_less_mono1) simp_all
    then show "unat (r + 1) * unat w + unat (0 :: 32 word) < unat h * unat w"
      unfolding r1 by simp
  qed
  have c: "unat ((r + 1) * w) = (unat r + 1) * unat w" if small: "unat h * unat w < 2 ^ 32"
  proof -
    have "(unat r + 1) * unat w \<le> unat h * unat w"
      using next_row by (intro mult_le_mono1) simp
    with small have "unat (r + 1) * unat w < 2 ^ LENGTH(32)"
      unfolding r1 by simp
    then have "unat ((r + 1) * w) = unat (r + 1) * unat w"
      by (simp only: unat_mult_lem)
    then show ?thesis unfolding r1 .
  qed
  have d: "TwoDSubRange_at sr sw row = TwoD_at t (c + sw) (r0 + row) \<and>
           (\<exists>i < length (twod_storage t). TwoDSubRange_at sr sw row = Inr i) \<and>
           TwoDSubRange_at sr col sh = TwoD_at t (c + col) (r0 + sh) \<and>
           (\<exists>i < length (twod_storage t). TwoDSubRange_at sr col sh = Inr i)"
    if "new_TwoDSubRange t c r0 sw sh = Inr sr \<and>
        unat c + unat sw \<le> unat w \<and> unat r0 + unat sh + 1 < unat h \<and>
        col \<le> sw \<and> row \<le> sh"
    for sr c r0 sw sh col row
  proof -
    from that have sr: "sr = \<lparr>sr_master = t, sr_column = c, sr_row = r0, sr_width = sw,
                              sr_height = sh\<rparr>"
      and fit: "unat c + unat sw \<le> unat w" "unat r0 + unat sh + 1 < unat h"
      and edge: "col \<le> sw" "row \<le> sh"
      by (simp_all add: new_TwoDSubRange_fields)
    have "sw \<le> sw" "sh \<le> sh" by simp_all
    from TwoDSubRange_at_edge [OF shape(1,2,3,5) sr fit \<open>sw \<le> sw\<close> edge(2)]
      TwoDSubRange_at_edge [OF shape(1,2,3,5) sr fit edge(1) \<open>sh \<le> sh\<close>]
    show ?thesis by (intro conjI) (elim conjE, assumption)+
  qed
  show ?thesis
  proof (intro conjI allI)
    show "TwoD_at t w r = Inr (unat ((r + 1) * w))"
      using a unfolding expand by (rule conjunct1)
    show "TwoD_at t 0 (r + 1) = Inr (unat ((r + 1) * w))"
      using b unfolding expand by (rule conjunct1)
    show "unat ((r + 1) * w) < length (twod_storage t)"
      using a unfolding expand by (rule conjunct2)
    show "unat h * unat w < 2 ^ 32 \<longrightarrow> unat ((r + 1) * w) = (unat r + 1) * unat w"
      using c by (intro impI)
    show "new_TwoDSubRange t c r0 sw sh = Inr sr \<and>
            unat c + unat sw \<le> unat w \<and> unat r0 + unat sh + 1 < unat h \<and>
            col \<le> sw \<and> row \<le> sh \<longrightarrow>
              TwoDSubRange_at sr sw row = TwoD_at t (c + sw) (r0 + row) \<and>
              (\<exists>i < length (twod_storage t). TwoDSubRange_at sr sw row = Inr i) \<and>
              TwoDSubRange_at sr col sh = TwoD_at t (c + col) (r0 + sh) \<and>
              (\<exists>i < length (twod_storage t). TwoDSubRange_at sr col sh = Inr i)"
      for sr c r0 sw sh col row
      using d [of c r0 sw sh sr col row] by (intro impI)
  qed
qed

lemma sample_grid_built: "new_TwoD numbered_cell 3 3 = Inr sample_grid"
  by code_simp


lemma sample_window_built: "new_TwoDSubRange sample_grid 0 0 2 1 = Inr sample_window"
  by (simp add: new_TwoDSubRange_def sample_grid_def sample_window_def)

theorem TwoD_at_one_past_the_end_witness:
  "new_TwoD numbered_cell 3 3 = Inr sample_grid \<and>
   unat (0 :: 32 word) + 1 < unat (3 :: 32 word) \<and>
   TwoD_at sample_grid 3 0 = Inr 3 \<and>
   TwoD_at sample_grid 0 1 = Inr 3 \<and>
   cell_at sample_grid 3 = 3 \<and>
   new_TwoDSubRange sample_grid 0 0 2 1 = Inr sample_window \<and>
   TwoDSubRange_at sample_window 2 0 = Inr 2 \<and>
   TwoDSubRange_at sample_window 0 1 = Inr 3"
proof -
  have h: "unat (0 :: 32 word) + 1 < unat (3 :: 32 word)" by simp
  note t = TwoD_at_one_past_the_end [OF sample_grid_built h]
  from t have a: "TwoD_at sample_grid 3 0 = Inr (unat ((0 + 1) * 3 :: 32 word))"
    by (rule conjunct1)
  from t have b: "TwoD_at sample_grid 0 (0 + 1) = Inr (unat ((0 + 1) * 3 :: 32 word))"
    by (elim conjE)
  from t have "\<forall>sr c r0 sw sh col row.
            new_TwoDSubRange sample_grid c r0 sw sh = Inr sr \<and>
            unat c + unat sw \<le> unat (3 :: 32 word) \<and> unat r0 + unat sh + 1 < unat (3 :: 32 word) \<and>
            col \<le> sw \<and> row \<le> sh \<longrightarrow>
              TwoDSubRange_at sr sw row = TwoD_at sample_grid (c + sw) (r0 + row) \<and>
              (\<exists>i < length (twod_storage sample_grid). TwoDSubRange_at sr sw row = Inr i) \<and>
              TwoDSubRange_at sr col sh = TwoD_at sample_grid (c + col) (r0 + sh) \<and>
              (\<exists>i < length (twod_storage sample_grid). TwoDSubRange_at sr col sh = Inr i)"
    by (elim conjE)
  from this [rule_format, of 0 0 2 1 sample_window 0 0] sample_window_built
  have "TwoDSubRange_at sample_window 2 0 = TwoD_at sample_grid 2 0"
    and "TwoDSubRange_at sample_window 0 1 = TwoD_at sample_grid 0 1"
    by simp_all
  moreover have "TwoD_at sample_grid 2 0 = Inr 2" "TwoD_at sample_grid 0 1 = Inr 3"
    by (simp_all add: TwoD_at_def vector_at_def sample_grid_def)
  ultimately have c: "TwoDSubRange_at sample_window 2 0 = Inr 2"
    and d: "TwoDSubRange_at sample_window 0 1 = Inr 3"
    by simp_all
  have e: "cell_at sample_grid 3 = 3"
    by (simp add: cell_at_def sample_grid_def)
  from a b have "TwoD_at sample_grid 3 0 = Inr 3" "TwoD_at sample_grid 0 1 = Inr 3"
    by simp_all
  with sample_grid_built h sample_window_built c d e show ?thesis
    by (intro conjI)
qed


end
